theory Spec2Isabelle
  imports Complex_Main
begin

section \<open>Data model\<close>

text \<open>
  The records follow the objects the server builds in \<^verbatim>\<open>src/Server/server.js\<close> and the
  TypeScript types the client uses. A question of a submitted feedback carries an identifier, its
  text, the rating and an optional comment. A field name that clashes with a keyword, with a
  constant of HOL or with a field of another record carries a suffix for its record
  (\<^verbatim>\<open>id_q\<close>, \<^verbatim>\<open>id_f\<close>). Ratings are JavaScript numbers holding integers; they are modelled
  as \<^typ>\<open>int\<close>, and an average as the exact rational quotient (the JavaScript number is the
  double nearest to it).
\<close>

record FeedbackQuestion =
  id_q :: string
  text_q :: string
  rating :: int
  comment :: "string option"

record Feedback =
  id_f :: string
  userId :: string
  userName :: string
  userEmail :: string
  userDepartment :: string
  targetDepartment :: string
  questions :: "FeedbackQuestion list"
  additionalComment :: "string option"
  createdAt :: int

text \<open>The entry kept in \<^verbatim>\<open>questionMap\<close> for one question identifier.\<close>

record QuestionAcc =
  questionId_m :: string
  questionText_m :: string
  totalRating :: int
  count_m :: nat

record QuestionStat =
  questionId :: string
  questionText :: string
  averageRating_q :: rat

record DepartmentStats =
  department :: string
  averageRating :: rat
  totalFeedbacks :: nat
  questionStats :: "QuestionStat list"

section \<open>StatsAggregator: the department statistics of GET /api/feedbacks\<close>

definition departments :: "string list" where
  "departments =
     [''IT'', ''Accounts'', ''Material'', ''HR'', ''Production'',
      ''Refinery Engg'', ''CGPP engg'', ''Civil'', ''Mechanical Engg'',
      ''Electrical Engg'', ''Instrument'', ''Technical'', ''WCM'', ''Safety'']"

text \<open>
  A JavaScript \<^verbatim>\<open>Map\<close> iterates in insertion order, and \<^verbatim>\<open>set\<close> on a key that is present
  keeps the key's position. It is modelled as an association list with distinct keys.
\<close>

type_synonym questionMap = "(string \<times> QuestionAcc) list"

fun map_has :: "questionMap \<Rightarrow> string \<Rightarrow> bool" where
  "map_has [] k = False"
| "map_has ((k', v') # m) k = (if k' = k then True else map_has m k)"

fun map_get :: "questionMap \<Rightarrow> string \<Rightarrow> QuestionAcc option" where
  "map_get [] k = None"
| "map_get ((k', v') # m) k = (if k' = k then Some v' else map_get m k)"

fun map_set :: "questionMap \<Rightarrow> string \<Rightarrow> QuestionAcc \<Rightarrow> questionMap" where
  "map_set [] k v = [(k, v)]"
| "map_set ((k', v') # m) k v = (if k' = k then (k, v) # m else (k', v') # map_set m k v)"

text \<open>
  The body of the inner \<^verbatim>\<open>feedback.questions.forEach\<close> of the first pass: create the entry
  if the identifier is new, then add the rating and count the question. \<^verbatim>\<open>stats\<close> is the object
  held by the map, so the two assignments update the map's entry in place. The lookup cannot miss
  (lemma \<open>collect_question_lookup\<close> below); the model leaves the map as it is there.
\<close>

definition collect_question :: "questionMap \<Rightarrow> FeedbackQuestion \<Rightarrow> questionMap" where
  "collect_question questionMap q =
     (let m1 = (if \<not> map_has questionMap (id_q q)
                then map_set questionMap (id_q q)
                       \<lparr>questionId_m = id_q q, questionText_m = text_q q,
                        totalRating = 0, count_m = 0\<rparr>
                else questionMap)
      in case map_get m1 (id_q q) of
           None \<Rightarrow> m1
         | Some stats \<Rightarrow>
             map_set m1 (id_q q)
               (stats\<lparr>totalRating := totalRating stats + rating q,
                      count_m := count_m stats + 1\<rparr>))"

definition collect_questions :: "Feedback list \<Rightarrow> questionMap" where
  "collect_questions departmentFeedbacks =
     fold (\<lambda>feedback m. fold (\<lambda>q m'. collect_question m' q) (questions feedback) m)
       departmentFeedbacks []"

text \<open>The second pass, \<^verbatim>\<open>questionMap.forEach\<close>: one statistic per entry, in the map's order.\<close>

definition question_stat :: "QuestionAcc \<Rightarrow> QuestionStat" where
  "question_stat stats =
     \<lparr>questionId = questionId_m stats,
      questionText = questionText_m stats,
      averageRating_q = (if count_m stats > 0
                         then of_int (totalRating stats) / of_nat (count_m stats) else 0)\<rparr>"

definition question_stats :: "questionMap \<Rightarrow> QuestionStat list" where
  "question_stats questionMap =
     fold (\<lambda>(k, stats) questionStats. questionStats @ [question_stat stats]) questionMap []"

text \<open>The third pass: the pair \<^verbatim>\<open>(totalRating, totalQuestions)\<close> over every question.\<close>

definition overall_totals :: "Feedback list \<Rightarrow> int \<times> nat" where
  "overall_totals departmentFeedbacks =
     fold (\<lambda>feedback acc.
             fold (\<lambda>question (tr, tq). (tr + rating question, tq + 1)) (questions feedback) acc)
       departmentFeedbacks (0, 0)"

text \<open>The body of \<^verbatim>\<open>departments.forEach\<close>: the entry pushed for one department.\<close>

definition department_entry :: "Feedback list \<Rightarrow> string \<Rightarrow> DepartmentStats" where
  "department_entry feedbacks d =
     (let departmentFeedbacks = filter (\<lambda>f. targetDepartment f = d) feedbacks
      in if length departmentFeedbacks = 0
         then \<lparr>department = d, averageRating = 0, totalFeedbacks = 0, questionStats = []\<rparr>
         else (let questionStats = question_stats (collect_questions departmentFeedbacks);
                   (totalRating, totalQuestions) = overall_totals departmentFeedbacks
               in \<lparr>department = d,
                   averageRating = (if totalQuestions > 0
                                    then of_int totalRating / of_nat totalQuestions else 0),
                   totalFeedbacks = length departmentFeedbacks,
                   questionStats = questionStats\<rparr>))"

definition departmentStats :: "Feedback list \<Rightarrow> DepartmentStats list" where
  "departmentStats feedbacks =
     fold (\<lambda>d stats. stats @ [department_entry feedbacks d]) departments []"

text \<open>The entry of the output that carries a given department name.\<close>

definition stats_of :: "Feedback list \<Rightarrow> string \<Rightarrow> DepartmentStats option" where
  "stats_of feedbacks d = find (\<lambda>s. department s = d) (departmentStats feedbacks)"

section \<open>The database\<close>

text \<open>
  The tables follow \<^verbatim>\<open>src/Server/db/new_schema.sql\<close>, the columns the handlers read and
  write. A nullable column, and a column whose constraint the handlers can violate, is an
  \<^typ>\<open>'a option\<close> with \<^const>\<open>None\<close> for \<^verbatim>\<open>NULL\<close>; a timestamp is an integer. Of the
  tables \<open>users\<close> and \<open>departments\<close> only the primary keys are kept, which is all the
  foreign keys of \<open>feedbacks\<close> look at. A sequence is the last value it has handed out.
\<close>

record FeedbackRow =
  ID :: string
  USER_ID :: string
  USER_NAME :: string
  USER_EMAIL :: string
  USER_DEPARTMENT :: string
  TARGET_DEPARTMENT :: string
  QUESTIONS :: "string option"
  ADDITIONAL_COMMENT :: "string option"
  CREATED_AT :: int

record FeedbackQuestionRow =
  ID_fq :: string
  FEEDBACK_ID :: string
  TEXT_fq :: "string option"
  RATING :: "int option"
  COMMENTS :: "string option"
  CREATED_AT_fq :: int

record FeedbackPeriodRow =
  ID_fp :: string
  DEPARTMENT :: string
  START_DATE :: int
  END_DATE :: int
  QUESTIONS_fp :: "string option"
  ACTIVE :: int
  CREATED_AT_fp :: int

record Db =
  users_table :: "string list"
  departments_table :: "string list"
  feedback_periods_table :: "FeedbackPeriodRow list"
  feedbacks_table :: "FeedbackRow list"
  feedback_questions_table :: "FeedbackQuestionRow list"
  feedback_seq :: nat
  feedback_question_seq :: nat

text \<open>
  The errors an insert can raise: a unique constraint (\<open>ORA-00001\<close>), \<^verbatim>\<open>NULL\<close> in a
  \<^verbatim>\<open>NOT NULL\<close> column (\<open>ORA-01400\<close>), a foreign key without parent (\<open>ORA-02291\<close>) and a
  value too large for its column (\<open>ORA-12899\<close>).
\<close>

datatype ora_error = ORA_00001 | ORA_01400 | ORA_02291 | ORA_12899

text \<open>
  The identifiers are built in SQL, \<^verbatim>\<open>'FB' || LPAD(feedback_seq.NEXTVAL, 8, '0')\<close>: the number
  in decimal, padded on the left to eight characters, or cut to its first eight when longer.
  An empty string is \<^verbatim>\<open>NULL\<close> in the database, and the handler itself sends
  \<^verbatim>\<open>additionalComment || null\<close>; \<open>or_null\<close> is both.
\<close>

definition digit_char :: "nat \<Rightarrow> char" where
  "digit_char n = ''0123456789'' ! n"

function TO_CHAR :: "nat \<Rightarrow> string" where
  "TO_CHAR n = (if n < 10 then [digit_char n] else TO_CHAR (n div 10) @ [digit_char (n mod 10)])"
  by pat_completeness auto
termination
  by (relation "measure id") auto

declare TO_CHAR.simps [simp del]

definition LPAD :: "string \<Rightarrow> nat \<Rightarrow> char \<Rightarrow> string" where
  "LPAD s n c = (if length s < n then replicate (n - length s) c @ s else take n s)"

definition or_null :: "string option \<Rightarrow> string option" where
  "or_null v = (case v of None \<Rightarrow> None | Some s \<Rightarrow> if s = [] then None else Some s)"

section \<open>POST /api/feedbacks\<close>

text \<open>
  The request body is what the client's form sends: the user, the target department, the
  questions with their ratings and comments, and a free comment. A rating is a number, or
  \<^verbatim>\<open>null\<close> where the client computed \<^verbatim>\<open>NaN\<close>. \<^verbatim>\<open>JSON.stringify\<close> is a parameter of the
  handler's model, and so is the time of the request.
\<close>

record SubmittedQuestion =
  id_s :: string
  text_s :: string
  type_s :: string
  rating_s :: "int option"
  comment_s :: "string option"

record FeedbackBody =
  userId_b :: string
  userName_b :: string
  userEmail_b :: string
  userDepartment_b :: string
  targetDepartment_b :: string
  questions_b :: "SubmittedQuestion list"
  additionalComment_b :: "string option"

definition feedback_id :: "nat \<Rightarrow> string" where
  "feedback_id n = ''FB'' @ LPAD (TO_CHAR n) 8 CHR ''0''"

definition feedback_question_id :: "nat \<Rightarrow> string" where
  "feedback_question_id n = ''FQ'' @ LPAD (TO_CHAR n) 8 CHR ''0''"

definition NEXTVAL_feedback_seq :: "Db \<Rightarrow> nat \<times> Db" where
  "NEXTVAL_feedback_seq db = (feedback_seq db + 1, db\<lparr>feedback_seq := feedback_seq db + 1\<rparr>)"

definition NEXTVAL_feedback_question_seq :: "Db \<Rightarrow> nat \<times> Db" where
  "NEXTVAL_feedback_question_seq db =
     (feedback_question_seq db + 1, db\<lparr>feedback_question_seq := feedback_question_seq db + 1\<rparr>)"

text \<open>
  The constraints of the two tables, as the schema declares them. Which violation is reported
  when several hold is the database's choice; the handler treats every error alike.
\<close>

definition check_feedbacks_row :: "Db \<Rightarrow> FeedbackRow \<Rightarrow> ora_error option" where
  "check_feedbacks_row db row =
     (if ID row = [] \<or> USER_ID row = [] \<or> USER_NAME row = [] \<or> USER_EMAIL row = []
         \<or> USER_DEPARTMENT row = [] \<or> TARGET_DEPARTMENT row = [] \<or> QUESTIONS row = None
      then Some ORA_01400
      else if length (ID row) > 36 \<or> length (USER_ID row) > 36 \<or> length (USER_NAME row) > 255
         \<or> length (USER_EMAIL row) > 255 \<or> length (USER_DEPARTMENT row) > 100
         \<or> length (TARGET_DEPARTMENT row) > 100
      then Some ORA_12899
      else if List.member (map ID (feedbacks_table db)) (ID row)
      then Some ORA_00001
      else if \<not> List.member (users_table db) (USER_ID row)
         \<or> \<not> List.member (departments_table db) (USER_DEPARTMENT row)
         \<or> \<not> List.member (departments_table db) (TARGET_DEPARTMENT row)
      then Some ORA_02291
      else None)"

definition check_feedback_questions_row :: "Db \<Rightarrow> FeedbackQuestionRow \<Rightarrow> ora_error option" where
  "check_feedback_questions_row db row =
     (if ID_fq row = [] \<or> FEEDBACK_ID row = [] \<or> TEXT_fq row = None \<or> RATING row = None
      then Some ORA_01400
      else if length (ID_fq row) > 36 \<or> length (FEEDBACK_ID row) > 36
      then Some ORA_12899
      else if List.member (map ID_fq (feedback_questions_table db)) (ID_fq row)
      then Some ORA_00001
      else if \<not> List.member (map ID (feedbacks_table db)) (FEEDBACK_ID row)
      then Some ORA_02291
      else None)"

text \<open>
  The two \<^verbatim>\<open>INSERT\<close> statements of the handler. Each takes the next value of its sequence,
  builds the row and stores it if the constraints hold.
\<close>

definition insert_feedback ::
  "int \<Rightarrow> FeedbackBody \<Rightarrow> string \<Rightarrow> Db \<Rightarrow> (ora_error + string) \<times> Db" where
  "insert_feedback now body questionsJson db =
     (let (n, db1) = NEXTVAL_feedback_seq db;
          row = \<lparr>ID = feedback_id n,
                 USER_ID = userId_b body, USER_NAME = userName_b body,
                 USER_EMAIL = userEmail_b body, USER_DEPARTMENT = userDepartment_b body,
                 TARGET_DEPARTMENT = targetDepartment_b body,
                 QUESTIONS = or_null (Some questionsJson),
                 ADDITIONAL_COMMENT = or_null (additionalComment_b body),
                 CREATED_AT = now\<rparr>
      in case check_feedbacks_row db1 row of
           Some e \<Rightarrow> (Inl e, db1)
         | None \<Rightarrow> (Inr (ID row), db1\<lparr>feedbacks_table := feedbacks_table db1 @ [row]\<rparr>))"

definition insert_feedback_question ::
  "int \<Rightarrow> string \<Rightarrow> SubmittedQuestion \<Rightarrow> Db \<Rightarrow> ora_error option \<times> Db" where
  "insert_feedback_question now feedbackId question db =
     (let (n, db1) = NEXTVAL_feedback_question_seq db;
          row = \<lparr>ID_fq = feedback_question_id n,
                 FEEDBACK_ID = feedbackId,
                 TEXT_fq = or_null (Some (text_s question)),
                 RATING = rating_s question,
                 COMMENTS = or_null (comment_s question),
                 CREATED_AT_fq = now\<rparr>
      in case check_feedback_questions_row db1 row of
           Some e \<Rightarrow> (Some e, db1)
         | None \<Rightarrow> (None, db1\<lparr>feedback_questions_table := feedback_questions_table db1 @ [row]\<rparr>))"

fun insert_feedback_questions ::
  "int \<Rightarrow> string \<Rightarrow> SubmittedQuestion list \<Rightarrow> Db \<Rightarrow> ora_error option \<times> Db" where
  "insert_feedback_questions now feedbackId [] db = (None, db)"
| "insert_feedback_questions now feedbackId (question # rest) db =
     (case insert_feedback_question now feedbackId question db of
        (Some e, db1) \<Rightarrow> (Some e, db1)
      | (None, db1) \<Rightarrow> insert_feedback_questions now feedbackId rest db1)"

text \<open>
  On an error the handler rolls the transaction back and answers with status 500: the tables
  are those of the start, the sequences keep the values they have reached. Otherwise it commits
  and answers with the identifier of the new feedback.
\<close>

definition rollback :: "Db \<Rightarrow> Db \<Rightarrow> Db" where
  "rollback db0 db =
     db0\<lparr>feedback_seq := feedback_seq db, feedback_question_seq := feedback_question_seq db\<rparr>"

definition post_api_feedbacks ::
  "(SubmittedQuestion list \<Rightarrow> string) \<Rightarrow> int \<Rightarrow> FeedbackBody \<Rightarrow> Db \<Rightarrow> (ora_error + string) \<times> Db"
  where
  "post_api_feedbacks JSON_stringify now body db =
     (let questionsJson = JSON_stringify (questions_b body)
      in case insert_feedback now body questionsJson db of
           (Inl e, db1) \<Rightarrow> (Inl e, rollback db db1)
         | (Inr feedbackId, db1) \<Rightarrow>
             (case insert_feedback_questions now feedbackId (questions_b body) db1 of
                (Some e, db2) \<Rightarrow> (Inl e, rollback db db2)
              | (None, db2) \<Rightarrow> (Inr feedbackId, db2)))"

section \<open>GET /api/feedbacks\<close>

text \<open>
  The handler turns each row its query returns into a feedback object. The question column is
  parsed inside \<^verbatim>\<open>try\<close>/\<^verbatim>\<open>catch\<close>: an empty column, or a text that \<^verbatim>\<open>JSON.parse\<close> rejects
  (\<^const>\<open>None\<close>), leaves the initial value \<^verbatim>\<open>[]\<close>. \<^verbatim>\<open>JSON.parse\<close> is a parameter, typed
  by what the aggregation takes: a text it accepts holds a list of questions. The rows are taken
  in the order the query returned them; among rows of equal time that order is the database's.
\<close>

definition row_questions ::
  "(string \<Rightarrow> FeedbackQuestion list option) \<Rightarrow> FeedbackRow \<Rightarrow> FeedbackQuestion list" where
  "row_questions JSON_parse row =
     (case QUESTIONS row of
        None \<Rightarrow> []
      | Some questionsString \<Rightarrow>
          (case JSON_parse questionsString of None \<Rightarrow> [] | Some parsed \<Rightarrow> parsed))"

definition row_feedback ::
  "(string \<Rightarrow> FeedbackQuestion list option) \<Rightarrow> FeedbackRow \<Rightarrow> Feedback" where
  "row_feedback JSON_parse row =
     \<lparr>id_f = ID row, userId = USER_ID row, userName = USER_NAME row,
      userEmail = USER_EMAIL row, userDepartment = USER_DEPARTMENT row,
      targetDepartment = TARGET_DEPARTMENT row,
      questions = row_questions JSON_parse row,
      additionalComment = ADDITIONAL_COMMENT row,
      createdAt = CREATED_AT row\<rparr>"

definition load_feedbacks ::
  "(string \<Rightarrow> FeedbackQuestion list option) \<Rightarrow> FeedbackRow list \<Rightarrow> Feedback list" where
  "load_feedbacks JSON_parse rows = map (row_feedback JSON_parse) rows"

record FeedbacksResponse =
  feedbacks_r :: "Feedback list"
  departmentStats_r :: "DepartmentStats list"
  totalFeedbacks_r :: nat

definition feedbacks_response ::
  "(string \<Rightarrow> FeedbackQuestion list option) \<Rightarrow> FeedbackRow list \<Rightarrow> FeedbacksResponse" where
  "feedbacks_response JSON_parse rows =
     (let feedbacks = load_feedbacks JSON_parse rows
      in \<lparr>feedbacks_r = feedbacks,
          departmentStats_r = departmentStats feedbacks,
          totalFeedbacks_r = length feedbacks\<rparr>)"

section \<open>GET /api/available-feedbacks\<close>

text \<open>
  The handler answers with the periods that are active and end after now, by end date, and with
  the target departments of the feedbacks the user has stored. Among periods of equal end date
  the order is the database's; the model keeps the table's, and no statement depends on it.
\<close>

record Question =
  id_t :: string
  text_t :: string
  type_t :: string

record FeedbackPeriod =
  id_p :: string
  department_p :: string
  startDate :: int
  endDate :: int
  active :: bool
  questions_p :: "Question list"
  createdAt_p :: int

record AvailableData =
  feedbackPeriods_d :: "FeedbackPeriod list"
  submittedDepartments_d :: "string list"

definition row_period :: "(string \<Rightarrow> Question list option) \<Rightarrow> FeedbackPeriodRow \<Rightarrow> FeedbackPeriod"
  where
  "row_period JSON_parse row =
     \<lparr>id_p = ID_fp row, department_p = DEPARTMENT row,
      startDate = START_DATE row, endDate = END_DATE row,
      active = (ACTIVE row = 1),
      questions_p = (case QUESTIONS_fp row of
                       None \<Rightarrow> []
                     | Some questionsString \<Rightarrow>
                         (case JSON_parse questionsString of None \<Rightarrow> [] | Some parsed \<Rightarrow> parsed)),
      createdAt_p = CREATED_AT_fp row\<rparr>"

definition select_active_periods :: "int \<Rightarrow> Db \<Rightarrow> FeedbackPeriodRow list" where
  "select_active_periods now db =
     sort_key END_DATE (filter (\<lambda>row. ACTIVE row = 1 \<and> END_DATE row > now) (feedback_periods_table db))"

definition select_submitted :: "string \<Rightarrow> Db \<Rightarrow> FeedbackRow list" where
  "select_submitted uid db = filter (\<lambda>row. USER_ID row = uid) (feedbacks_table db)"

definition get_api_available_feedbacks ::
  "(string \<Rightarrow> Question list option) \<Rightarrow> int \<Rightarrow> string \<Rightarrow> Db \<Rightarrow> (string + AvailableData) \<times> Db"
  where
  "get_api_available_feedbacks JSON_parse now uid db =
     (if uid = [] then (Inl ''User ID is required'', db)
      else (Inr \<lparr>feedbackPeriods_d = map (row_period JSON_parse) (select_active_periods now db),
                 submittedDepartments_d = map TARGET_DEPARTMENT (select_submitted uid db)\<rparr>,
            db))"

section \<open>AvailabilityFilter: the client component AvailableFeedbacks\<close>

text \<open>
  The component keeps four state variables. Its effect fetches the server's answer, drops the
  periods of the user's own department and stores the rest with the submitted departments; a
  missing user or a failed request sets the error instead. Rendering reads the state, calls no
  setter, and shows the periods whose department is not among the submitted ones.
\<close>

record User =
  id_u :: string
  name_u :: string
  email_u :: string
  department_u :: string

record AvailableFeedbacksState =
  loading :: bool
  feedbackPeriods :: "FeedbackPeriod list"
  submittedDepartments :: "string list"
  error :: "string option"

definition initial_state :: AvailableFeedbacksState where
  "initial_state = \<lparr>loading = True, feedbackPeriods = [], submittedDepartments = [], error = None\<rparr>"

definition fetchAvailableFeedbacks ::
  "User option \<Rightarrow> (string \<Rightarrow> (string + AvailableData)) \<Rightarrow> AvailableFeedbacksState
     \<Rightarrow> AvailableFeedbacksState" where
  "fetchAvailableFeedbacks currentUser fetch st =
     (case currentUser of
        None \<Rightarrow> st\<lparr>error := Some ''User not authenticated'', loading := False\<rparr>
      | Some user \<Rightarrow>
          if id_u user = [] then st\<lparr>error := Some ''User not authenticated'', loading := False\<rparr>
          else (case fetch (id_u user) of
                  Inl e \<Rightarrow> st\<lparr>error := Some ''Failed to load available feedbacks'', loading := False\<rparr>
                | Inr data \<Rightarrow>
                    (let filteredPeriods =
                           filter (\<lambda>period. department_p period \<noteq> department_u user)
                             (feedbackPeriods_d data)
                     in st\<lparr>feedbackPeriods := filteredPeriods,
                           submittedDepartments := submittedDepartments_d data,
                           error := None, loading := False\<rparr>)))"

datatype view =
  Spinner
| ErrorCard string
| Cards "FeedbackPeriod list" "string list"

definition availablePeriods :: "AvailableFeedbacksState \<Rightarrow> FeedbackPeriod list" where
  "availablePeriods st =
     filter (\<lambda>period. \<not> List.member (submittedDepartments st) (department_p period))
       (feedbackPeriods st)"

definition render :: "AvailableFeedbacksState \<Rightarrow> view \<times> AvailableFeedbacksState" where
  "render st =
     (if loading st then (Spinner, st)
      else case error st of
             Some e \<Rightarrow>
               if e \<noteq> [] then (ErrorCard e, st)
               else (Cards (availablePeriods st) (submittedDepartments st), st)
           | None \<Rightarrow> (Cards (availablePeriods st) (submittedDepartments st), st))"

text \<open>
  The filter as a function of its three inputs: the effect on a successful answer, from the
  initial state, followed by the list the rendering shows.
\<close>

definition AvailabilityFilter :: "FeedbackPeriod list \<Rightarrow> string list \<Rightarrow> User \<Rightarrow> FeedbackPeriod list"
  where
  "AvailabilityFilter periods submitted user =
     availablePeriods
       (fetchAvailableFeedbacks (Some user)
          (\<lambda>uid. Inr \<lparr>feedbackPeriods_d = periods, submittedDepartments_d = submitted\<rparr>)
          initial_state)"

section \<open>The client component FeedbackForm\<close>

text \<open>
  The rating of a question is chosen with one of five radio inputs, whose values are the numbers
  1 to 5 rendered as strings. \<^verbatim>\<open>onSubmit\<close> turns the chosen string into a number with
  \<^verbatim>\<open>parseInt(_, 10)\<close>: leading white space is skipped, a sign is read, then the longest prefix
  of decimal digits; if there is none the result is \<^verbatim>\<open>NaN\<close>, which JSON sends as
  \<^verbatim>\<open>null\<close> (\<^const>\<open>None\<close> here).
\<close>

definition radio_values :: "string list" where
  "radio_values = map TO_CHAR [1, 2, 3, 4, 5]"

definition is_white_space :: "char \<Rightarrow> bool" where
  "is_white_space c = List.member [CHR '' '', CHR 0x09, CHR 0x0A, CHR 0x0B, CHR 0x0C, CHR 0x0D] c"

definition digit_value :: "char \<Rightarrow> nat option" where
  "digit_value c =
     (let n = (of_char c :: nat) in if 48 \<le> n \<and> n \<le> 57 then Some (n - 48) else None)"

definition digits_value :: "string \<Rightarrow> nat" where
  "digits_value z =
     foldl (\<lambda>n c. case digit_value c of None \<Rightarrow> n | Some v \<Rightarrow> 10 * n + v) 0 z"

definition parseInt :: "string \<Rightarrow> int option" where
  "parseInt string =
     (let s = dropWhile is_white_space string;
          (sign, s1) = (case s of
                          [] \<Rightarrow> (1, [])
                        | c # r \<Rightarrow> if c = CHR ''-'' then (- 1, r)
                                   else if c = CHR ''+'' then (1, r) else (1, s));
          z = takeWhile (\<lambda>c. digit_value c \<noteq> None) s1
      in if z = [] then None else Some (sign * int (digits_value z)))"

text \<open>
  \<^verbatim>\<open>onSubmit\<close> builds the request body from the form's values. It does nothing without a user
  and a period, and throws, before any request is sent, when a rating or a required field is
  missing.
\<close>

record QuestionFormData =
  rating_f :: string
  comment_f :: "string option"

record FormValues =
  answers :: "string \<Rightarrow> QuestionFormData option"
  additionalComment_f :: "string option"

fun feedbackQuestions ::
  "FormValues \<Rightarrow> Question list \<Rightarrow> string + SubmittedQuestion list" where
  "feedbackQuestions data [] = Inr []"
| "feedbackQuestions data (question # rest) =
     (case answers data (id_t question) of
        None \<Rightarrow> Inl (''Missing rating for question: '' @ text_t question)
      | Some formQuestion \<Rightarrow>
          if rating_f formQuestion = []
          then Inl (''Missing rating for question: '' @ text_t question)
          else (case feedbackQuestions data rest of
                  Inl e \<Rightarrow> Inl e
                | Inr qs \<Rightarrow>
                    Inr (\<lparr>id_s = id_t question, text_s = text_t question,
                          type_s = type_t question,
                          rating_s = parseInt (rating_f formQuestion),
                          comment_s = Some (case comment_f formQuestion of
                                              None \<Rightarrow> [] | Some c \<Rightarrow> c)\<rparr> # qs)))"

datatype submit_result =
  NotReady
| Thrown string
| Posted FeedbackBody

definition onSubmit :: "User option \<Rightarrow> FeedbackPeriod option \<Rightarrow> FormValues \<Rightarrow> submit_result" where
  "onSubmit currentUser feedbackPeriod data =
     (case (currentUser, feedbackPeriod) of
        (Some user, Some period) \<Rightarrow>
          (case feedbackQuestions data (questions_p period) of
             Inl e \<Rightarrow> Thrown e
           | Inr qs \<Rightarrow>
               if id_u user = [] \<or> name_u user = [] \<or> email_u user = [] \<or> department_u user = []
               then Thrown ''Missing required user information''
               else if department_p period = []
               then Thrown ''Missing required feedback information''
               else Posted \<lparr>userId_b = id_u user, userName_b = name_u user,
                             userEmail_b = email_u user, userDepartment_b = department_u user,
                             targetDepartment_b = department_p period,
                             questions_b = qs,
                             additionalComment_b =
                               Some (case additionalComment_f data of None \<Rightarrow> [] | Some c \<Rightarrow> c)\<rparr>)
      | _ \<Rightarrow> NotReady)"

section \<open>The two computations on an explicit store\<close>

text \<open>
  The definitions above compute with values. The code computes with objects: the feedbacks
  array holds references to feedback objects, each of which refers to its array of question
  objects; the handler builds new arrays and a \<^verbatim>\<open>Map\<close>, pushes into them, and updates in place
  the entry object that \<^verbatim>\<open>questionMap.get\<close> returns. To say which objects a run writes, this
  section repeats the two computations on a store of objects. An address is an index into the
  store, a new object gets the next index, and a read of an address that holds no object, or an
  object of another shape, is the \<^verbatim>\<open>TypeError\<close> of the code (\<^const>\<open>None\<close>). Strings and
  numbers are values and live inside the objects. The fixed list of department names is an
  array literal of the handler that nothing writes, and stays a list; a period object keeps its
  question list by value, since the component never follows it.
\<close>

type_synonym addr = nat

datatype obj =
  Arr "addr list"
| StrArr "string list"
| QuestionObj FeedbackQuestion
| FeedbackObj string string string string string string addr "string option" int
| StatsObj QuestionAcc
| MapObj "(string \<times> addr) list"
| QuestionStatObj QuestionStat
| DepartmentStatsObj string rat nat addr
| PeriodObj FeedbackPeriod

type_synonym heap = "obj list"

definition lookup :: "heap \<Rightarrow> addr \<Rightarrow> obj option" where
  "lookup h a = (if a < length h then Some (h ! a) else None)"

definition alloc :: "obj \<Rightarrow> heap \<Rightarrow> addr \<times> heap" where
  "alloc ob h = (length h, h @ [ob])"

definition store :: "addr \<Rightarrow> obj \<Rightarrow> heap \<Rightarrow> heap" where
  "store a ob h = h[a := ob]"

definition read_array :: "heap \<Rightarrow> addr \<Rightarrow> addr list option" where
  "read_array h a = (case lookup h a of Some (Arr rs) \<Rightarrow> Some rs | _ \<Rightarrow> None)"

definition read_question :: "heap \<Rightarrow> addr \<Rightarrow> FeedbackQuestion option" where
  "read_question h r = (case lookup h r of Some (QuestionObj q) \<Rightarrow> Some q | _ \<Rightarrow> None)"

text \<open>The two fields of a feedback object that the aggregation reads.\<close>

definition read_targetDepartment :: "heap \<Rightarrow> addr \<Rightarrow> string option" where
  "read_targetDepartment h r =
     (case lookup h r of Some (FeedbackObj i u n e ud t qa c ca) \<Rightarrow> Some t | _ \<Rightarrow> None)"

definition read_questions :: "heap \<Rightarrow> addr \<Rightarrow> addr option" where
  "read_questions h r =
     (case lookup h r of Some (FeedbackObj i u n e ud t qa c ca) \<Rightarrow> Some qa | _ \<Rightarrow> None)"

text \<open>
  \<^verbatim>\<open>array.push(r)\<close> writes the array object. A loop body runs on each element in turn; the
  elements are read when the loop starts, and no array or map is written while a loop runs over
  it.
\<close>

definition push :: "addr \<Rightarrow> addr \<Rightarrow> heap \<Rightarrow> heap option" where
  "push a r h = (case read_array h a of None \<Rightarrow> None | Some rs \<Rightarrow> Some (store a (Arr (rs @ [r])) h))"

fun for_each :: "('a \<Rightarrow> 's \<Rightarrow> 's option) \<Rightarrow> 'a list \<Rightarrow> 's \<Rightarrow> 's option" where
  "for_each f [] s = Some s"
| "for_each f (x # xs) s = (case f x s of None \<Rightarrow> None | Some s' \<Rightarrow> for_each f xs s')"

definition array_for_each :: "(addr \<Rightarrow> heap \<Rightarrow> heap option) \<Rightarrow> addr \<Rightarrow> heap \<Rightarrow> heap option" where
  "array_for_each f a h = (case read_array h a of None \<Rightarrow> None | Some rs \<Rightarrow> for_each f rs h)"

subsection \<open>StatsAggregator on the store\<close>

text \<open>
  \<^verbatim>\<open>feedbacks.filter(f => f.targetDepartment === department)\<close>: a new array of the references
  whose feedback targets the department.
\<close>

fun filter_refs :: "(addr \<Rightarrow> bool option) \<Rightarrow> addr list \<Rightarrow> addr list option" where
  "filter_refs p [] = Some []"
| "filter_refs p (r # rs) =
     (case p r of
        None \<Rightarrow> None
      | Some b \<Rightarrow> (case filter_refs p rs of
                     None \<Rightarrow> None
                   | Some ys \<Rightarrow> Some (if b then r # ys else ys)))"

definition filter_array :: "(addr \<Rightarrow> bool option) \<Rightarrow> addr \<Rightarrow> heap \<Rightarrow> (addr \<times> heap) option" where
  "filter_array p a h =
     (case read_array h a of
        None \<Rightarrow> None
      | Some rs \<Rightarrow> (case filter_refs p rs of None \<Rightarrow> None | Some ys \<Rightarrow> Some (alloc (Arr ys) h)))"

definition targets :: "heap \<Rightarrow> string \<Rightarrow> addr \<Rightarrow> bool option" where
  "targets h d r = map_option (\<lambda>t. t = d) (read_targetDepartment h r)"

text \<open>
  The first pass. A new key gets a new entry object, whose reference the map stores; then the
  entry the map holds for the key is updated in place.
\<close>

definition collect_question_h :: "addr \<Rightarrow> addr \<Rightarrow> heap \<Rightarrow> heap option" where
  "collect_question_h questionMap_ref qr h =
     (case read_question h qr of
        None \<Rightarrow> None
      | Some q \<Rightarrow>
          (case lookup h questionMap_ref of
             Some (MapObj es) \<Rightarrow>
               (let (es1, h1) =
                      (if map_of es (id_q q) = None
                       then (let (s, h') = alloc (StatsObj \<lparr>questionId_m = id_q q,
                                                            questionText_m = text_q q,
                                                            totalRating = 0, count_m = 0\<rparr>) h
                             in (es @ [(id_q q, s)],
                                 store questionMap_ref (MapObj (es @ [(id_q q, s)])) h'))
                       else (es, h))
                in case map_of es1 (id_q q) of
                     None \<Rightarrow> None
                   | Some s \<Rightarrow>
                       (case lookup h1 s of
                          Some (StatsObj stats) \<Rightarrow>
                            Some (store s (StatsObj (stats\<lparr>totalRating := totalRating stats + rating q,
                                                           count_m := count_m stats + 1\<rparr>)) h1)
                        | _ \<Rightarrow> None))
           | _ \<Rightarrow> None))"

definition collect_feedback_h :: "addr \<Rightarrow> addr \<Rightarrow> heap \<Rightarrow> heap option" where
  "collect_feedback_h questionMap_ref fr h =
     (case read_questions h fr of
        None \<Rightarrow> None
      | Some qa \<Rightarrow> array_for_each (collect_question_h questionMap_ref) qa h)"

definition collect_questions_h :: "addr \<Rightarrow> addr \<Rightarrow> heap \<Rightarrow> heap option" where
  "collect_questions_h questionMap_ref departmentFeedbacks_ref h =
     array_for_each (collect_feedback_h questionMap_ref) departmentFeedbacks_ref h"

text \<open>The second pass: a new statistic object per entry, pushed into \<^verbatim>\<open>questionStats\<close>.\<close>

definition push_question_stat :: "addr \<Rightarrow> string \<times> addr \<Rightarrow> heap \<Rightarrow> heap option" where
  "push_question_stat questionStats_ref e h =
     (case lookup h (snd e) of
        Some (StatsObj stats) \<Rightarrow>
          (let (r, h1) = alloc (QuestionStatObj (question_stat stats)) h
           in push questionStats_ref r h1)
      | _ \<Rightarrow> None)"

definition question_stats_h :: "addr \<Rightarrow> addr \<Rightarrow> heap \<Rightarrow> heap option" where
  "question_stats_h questionMap_ref questionStats_ref h =
     (case lookup h questionMap_ref of
        Some (MapObj es) \<Rightarrow> for_each (push_question_stat questionStats_ref) es h
      | _ \<Rightarrow> None)"

text \<open>The third pass reads only; its two totals are local variables.\<close>

definition total_question :: "heap \<Rightarrow> addr \<Rightarrow> int \<times> nat \<Rightarrow> (int \<times> nat) option" where
  "total_question h qr acc =
     (case read_question h qr of
        None \<Rightarrow> None
      | Some question \<Rightarrow> Some (fst acc + rating question, snd acc + 1))"

definition total_feedback :: "heap \<Rightarrow> addr \<Rightarrow> int \<times> nat \<Rightarrow> (int \<times> nat) option" where
  "total_feedback h fr acc =
     (case read_questions h fr of
        None \<Rightarrow> None
      | Some qa \<Rightarrow> (case read_array h qa of
                      None \<Rightarrow> None
                    | Some qrs \<Rightarrow> for_each (total_question h) qrs acc))"

definition overall_totals_h :: "heap \<Rightarrow> addr \<Rightarrow> (int \<times> nat) option" where
  "overall_totals_h h departmentFeedbacks_ref =
     (case read_array h departmentFeedbacks_ref of
        None \<Rightarrow> None
      | Some frs \<Rightarrow> for_each (total_feedback h) frs (0, 0))"

text \<open>The body of \<^verbatim>\<open>departments.forEach\<close>, and the whole computation.\<close>

definition department_step_h :: "addr \<Rightarrow> addr \<Rightarrow> string \<Rightarrow> heap \<Rightarrow> heap option" where
  "department_step_h feedbacks_ref departmentStats_ref d h =
     (case filter_array (targets h d) feedbacks_ref h of
        None \<Rightarrow> None
      | Some (departmentFeedbacks_ref, h1) \<Rightarrow>
          (case read_array h1 departmentFeedbacks_ref of
             None \<Rightarrow> None
           | Some frs \<Rightarrow>
               if length frs = 0
               then (let (questionStats_ref, h2) = alloc (Arr []) h1;
                         (entry, h3) = alloc (DepartmentStatsObj d 0 0 questionStats_ref) h2
                     in push departmentStats_ref entry h3)
               else (let (questionStats_ref, h2) = alloc (Arr []) h1;
                         (questionMap_ref, h3) = alloc (MapObj []) h2
                     in case collect_questions_h questionMap_ref departmentFeedbacks_ref h3 of
                          None \<Rightarrow> None
                        | Some h4 \<Rightarrow>
                            (case question_stats_h questionMap_ref questionStats_ref h4 of
                               None \<Rightarrow> None
                             | Some h5 \<Rightarrow>
                                 (case overall_totals_h h5 departmentFeedbacks_ref of
                                    None \<Rightarrow> None
                                  | Some (totalRating_v, totalQuestions) \<Rightarrow>
                                      (let (entry, h6) =
                                             alloc (DepartmentStatsObj d
                                                      (if totalQuestions > 0
                                                       then of_int totalRating_v / of_nat totalQuestions
                                                       else 0)
                                                      (length frs) questionStats_ref) h5
                                       in push departmentStats_ref entry h6))))))"

definition aggregate_h :: "addr \<Rightarrow> heap \<Rightarrow> (addr \<times> heap) option" where
  "aggregate_h feedbacks_ref h =
     (let (departmentStats_ref, h1) = alloc (Arr []) h
      in case for_each (department_step_h feedbacks_ref departmentStats_ref) departments h1 of
           None \<Rightarrow> None
         | Some h' \<Rightarrow> Some (departmentStats_ref, h'))"

subsection \<open>AvailabilityFilter on the store\<close>

text \<open>
  The two \<^verbatim>\<open>filter\<close> calls of the component: the first on the array of the server's answer,
  against the user's department, the second on its result, against the array of submitted
  departments. Each builds a new array.
\<close>

definition read_period :: "heap \<Rightarrow> addr \<Rightarrow> FeedbackPeriod option" where
  "read_period h r = (case lookup h r of Some (PeriodObj p) \<Rightarrow> Some p | _ \<Rightarrow> None)"

definition read_strings :: "heap \<Rightarrow> addr \<Rightarrow> string list option" where
  "read_strings h a = (case lookup h a of Some (StrArr xs) \<Rightarrow> Some xs | _ \<Rightarrow> None)"

definition not_own :: "heap \<Rightarrow> string \<Rightarrow> addr \<Rightarrow> bool option" where
  "not_own h own r = map_option (\<lambda>period. department_p period \<noteq> own) (read_period h r)"

definition not_submitted :: "heap \<Rightarrow> addr \<Rightarrow> addr \<Rightarrow> bool option" where
  "not_submitted h submittedDepartments_ref r =
     (case read_strings h submittedDepartments_ref of
        None \<Rightarrow> None
      | Some xs \<Rightarrow> map_option (\<lambda>period. \<not> List.member xs (department_p period)) (read_period h r))"

definition availability_h :: "addr \<Rightarrow> addr \<Rightarrow> string \<Rightarrow> heap \<Rightarrow> (addr \<times> heap) option" where
  "availability_h feedbackPeriods_ref submittedDepartments_ref own h =
     (case filter_array (not_own h own) feedbackPeriods_ref h of
        None \<Rightarrow> None
      | Some (filteredPeriods_ref, h1) \<Rightarrow>
          filter_array (not_submitted h1 submittedDepartments_ref) filteredPeriods_ref h1)"

subsection \<open>What the store holds at a reference\<close>

text \<open>
  The value of an array of questions, of a feedback object, of the feedbacks array, and of the
  arrays a run returns: the objects read through their references.
\<close>

definition questions_at :: "heap \<Rightarrow> addr \<Rightarrow> FeedbackQuestion list option" where
  "questions_at h a =
     (case read_array h a of None \<Rightarrow> None | Some rs \<Rightarrow> those (map (read_question h) rs))"

definition feedback_at :: "heap \<Rightarrow> addr \<Rightarrow> Feedback option" where
  "feedback_at h r =
     (case lookup h r of
        Some (FeedbackObj i u n e ud t qa c ca) \<Rightarrow>
          map_option
            (\<lambda>qs. \<lparr>id_f = i, userId = u, userName = n, userEmail = e, userDepartment = ud,
                   targetDepartment = t, questions = qs, additionalComment = c, createdAt = ca\<rparr>)
            (questions_at h qa)
      | _ \<Rightarrow> None)"

definition feedbacks_at :: "heap \<Rightarrow> addr \<Rightarrow> Feedback list option" where
  "feedbacks_at h a =
     (case read_array h a of None \<Rightarrow> None | Some rs \<Rightarrow> those (map (feedback_at h) rs))"

definition read_question_stat :: "heap \<Rightarrow> addr \<Rightarrow> QuestionStat option" where
  "read_question_stat h r = (case lookup h r of Some (QuestionStatObj s) \<Rightarrow> Some s | _ \<Rightarrow> None)"

definition question_stats_at :: "heap \<Rightarrow> addr \<Rightarrow> QuestionStat list option" where
  "question_stats_at h a =
     (case read_array h a of None \<Rightarrow> None | Some rs \<Rightarrow> those (map (read_question_stat h) rs))"

definition entry_at :: "heap \<Rightarrow> addr \<Rightarrow> DepartmentStats option" where
  "entry_at h r =
     (case lookup h r of
        Some (DepartmentStatsObj d avg n qa) \<Rightarrow>
          map_option
            (\<lambda>qs. \<lparr>department = d, averageRating = avg, totalFeedbacks = n, questionStats = qs\<rparr>)
            (question_stats_at h qa)
      | _ \<Rightarrow> None)"

definition department_stats_at :: "heap \<Rightarrow> addr \<Rightarrow> DepartmentStats list option" where
  "department_stats_at h a =
     (case read_array h a of None \<Rightarrow> None | Some rs \<Rightarrow> those (map (entry_at h) rs))"

definition periods_at :: "heap \<Rightarrow> addr \<Rightarrow> FeedbackPeriod list option" where
  "periods_at h a =
     (case read_array h a of None \<Rightarrow> None | Some rs \<Rightarrow> those (map (read_period h) rs))"

section \<open>The grouping the specification describes\<close>

text \<open>
  These definitions follow the words of the specification, not the code: the question-rating
  pairs of a partition, in order; the first pair met for each question identifier, in order of
  first encounter; the ratings given to one identifier; the sum and count per identifier.
\<close>

definition all_questions :: "Feedback list \<Rightarrow> FeedbackQuestion list" where
  "all_questions departmentFeedbacks = concat (map questions departmentFeedbacks)"

fun first_encounters :: "FeedbackQuestion list \<Rightarrow> FeedbackQuestion list" where
  "first_encounters [] = []"
| "first_encounters (q # qs) = q # filter (\<lambda>x. id_q x \<noteq> id_q q) (first_encounters qs)"

definition ratings_of :: "FeedbackQuestion list \<Rightarrow> string \<Rightarrow> int list" where
  "ratings_of qs k = map rating (filter (\<lambda>x. id_q x = k) qs)"

definition group_acc :: "FeedbackQuestion list \<Rightarrow> FeedbackQuestion \<Rightarrow> QuestionAcc" where
  "group_acc qs q =
     \<lparr>questionId_m = id_q q, questionText_m = text_q q,
      totalRating = sum_list (ratings_of qs (id_q q)),
      count_m = length (ratings_of qs (id_q q))\<rparr>"

definition grouped :: "FeedbackQuestion list \<Rightarrow> questionMap" where
  "grouped qs = map (\<lambda>q. (id_q q, group_acc qs q)) (first_encounters qs)"

definition average :: "int list \<Rightarrow> rat" where
  "average rs = (if length rs = 0 then 0 else of_int (sum_list rs) / of_nat (length rs))"

definition grouped_question_stats :: "FeedbackQuestion list \<Rightarrow> QuestionStat list" where
  "grouped_question_stats qs =
     map (\<lambda>q. \<lparr>questionId = id_q q, questionText = text_q q,
                averageRating_q = average (ratings_of qs (id_q q))\<rparr>)
       (first_encounters qs)"

definition partition_of :: "Feedback list \<Rightarrow> string \<Rightarrow> Feedback list" where
  "partition_of feedbacks d = filter (\<lambda>f. targetDepartment f = d) feedbacks"

text \<open>What an entry says about ratings: everything but the number of feedbacks.\<close>

definition ratings_view :: "DepartmentStats \<Rightarrow> string \<times> rat \<times> QuestionStat list" where
  "ratings_view s = (department s, averageRating s, questionStats s)"

section \<open>Notions used in the statements about submissions\<close>

text \<open>
  A question the table \<open>feedback_questions\<close> can hold; the identifiers the next inserts
  will generate and whether they are unused; the number of stored feedbacks of one user about one
  department; the constraints of the table \<open>feedbacks\<close> that concern the request body.
\<close>

definition question_ok :: "SubmittedQuestion \<Rightarrow> bool" where
  "question_ok q = (text_s q \<noteq> [] \<and> rating_s q \<noteq> None)"

fun question_ids_from :: "nat \<Rightarrow> nat \<Rightarrow> string list" where
  "question_ids_from s 0 = []"
| "question_ids_from s (Suc n) = feedback_question_id (Suc s) # question_ids_from (Suc s) n"

definition ids_free :: "Db \<Rightarrow> nat \<Rightarrow> bool" where
  "ids_free db n =
     (\<not> List.member (map ID (feedbacks_table db)) (feedback_id (feedback_seq db + 1))
      \<and> distinct (question_ids_from (feedback_question_seq db) n)
      \<and> list_all (\<lambda>i. \<not> List.member (map ID_fq (feedback_questions_table db)) i)
           (question_ids_from (feedback_question_seq db) n))"

definition pair_count :: "Db \<Rightarrow> string \<Rightarrow> string \<Rightarrow> nat" where
  "pair_count db uid target =
     length (filter (\<lambda>row. USER_ID row = uid \<and> TARGET_DEPARTMENT row = target) (feedbacks_table db))"

definition body_ok :: "Db \<Rightarrow> FeedbackBody \<Rightarrow> string \<Rightarrow> bool" where
  "body_ok db body questionsJson =
     (userId_b body \<noteq> [] \<and> userName_b body \<noteq> [] \<and> userEmail_b body \<noteq> []
      \<and> userDepartment_b body \<noteq> [] \<and> targetDepartment_b body \<noteq> [] \<and> questionsJson \<noteq> []
      \<and> length (userId_b body) \<le> 36 \<and> length (userName_b body) \<le> 255
      \<and> length (userEmail_b body) \<le> 255 \<and> length (userDepartment_b body) \<le> 100
      \<and> length (targetDepartment_b body) \<le> 100
      \<and> List.member (users_table db) (userId_b body)
      \<and> List.member (departments_table db) (userDepartment_b body)
      \<and> List.member (departments_table db) (targetDepartment_b body))"

section \<open>Notions used in the statements about the store\<close>

text \<open>
  A later store preserves an earlier one when every object of the earlier store is still at its
  address, unchanged: the later store only has more objects. The two other notions say what a
  question map and an array of department entries on the store stand for; the entry objects of
  the map, and the arrays the department entries refer to, are objects of their own.
\<close>

definition preserves :: "heap \<Rightarrow> heap \<Rightarrow> bool" where
  "preserves g h = (take (length g) h = g)"

definition map_holds :: "heap \<Rightarrow> addr \<Rightarrow> questionMap \<Rightarrow> bool" where
  "map_holds h m qm =
     (\<exists>es. lookup h m = Some (MapObj es) \<and> distinct (map snd es) \<and> list_all (\<lambda>e. m < snd e) es \<and>
           list_all2 (\<lambda>e kv. fst e = fst kv \<and> lookup h (snd e) = Some (StatsObj (snd kv))) es qm)"

definition entry_holds :: "heap \<Rightarrow> addr \<Rightarrow> addr \<Rightarrow> DepartmentStats \<Rightarrow> bool" where
  "entry_holds h ds r y =
     (entry_at h r = Some y \<and>
      (case lookup h r of Some (DepartmentStatsObj d avg n qa) \<Rightarrow> qa \<noteq> ds | _ \<Rightarrow> False))"

definition stats_hold :: "heap \<Rightarrow> addr \<Rightarrow> DepartmentStats list \<Rightarrow> bool" where
  "stats_hold h ds ys =
     (\<exists>rs. lookup h ds = Some (Arr rs) \<and> list_all2 (entry_holds h ds) rs ys)"

section \<open>Example data\<close>

definition F1 :: Feedback where
  "F1 = \<lparr>id_f = ''FB00000001'', userId = ''u1'', userName = ''Asha'',
         userEmail = ''asha@example.com'', userDepartment = ''HR'', targetDepartment = ''IT'',
         questions = [\<lparr>id_q = ''q1'', text_q = ''Response time'', rating = 5, comment = None\<rparr>,
                      \<lparr>id_q = ''q2'', text_q = ''Quality of support'', rating = 3,
                        comment = Some ''slow''\<rparr>],
         additionalComment = None, createdAt = 2\<rparr>"

definition F2 :: Feedback where
  "F2 = \<lparr>id_f = ''FB00000002'', userId = ''u2'', userName = ''Ravi'',
         userEmail = ''ravi@example.com'', userDepartment = ''Civil'', targetDepartment = ''IT'',
         questions = [\<lparr>id_q = ''q1'', text_q = ''Response time'', rating = 1,
                        comment = Some ''late''\<rparr>],
         additionalComment = None, createdAt = 1\<rparr>"

definition F3 :: Feedback where
  "F3 = \<lparr>id_f = ''FB00000003'', userId = ''u1'', userName = ''Asha'',
         userEmail = ''asha@example.com'', userDepartment = ''HR'', targetDepartment = ''Safety'',
         questions = [], additionalComment = None, createdAt = 0\<rparr>"

text \<open>A stand-in for \<^verbatim>\<open>JSON.stringify\<close> in the examples; the theorems hold for every function.\<close>

definition example_stringify :: "SubmittedQuestion list \<Rightarrow> string" where
  "example_stringify qs =
     ''['' @ concat (map (\<lambda>q. id_s q @ '':'' @
                              (case rating_s q of None \<Rightarrow> ''null'' | Some r \<Rightarrow> TO_CHAR (nat r))
                              @ '';'') qs) @ '']''"

definition example_parse :: "string \<Rightarrow> FeedbackQuestion list option" where
  "example_parse s =
     (if s = ''[q1:4;]''
      then Some [\<lparr>id_q = ''q1'', text_q = ''Response time'', rating = 4, comment = None\<rparr>]
      else None)"

definition db0 :: Db where
  "db0 = \<lparr>users_table = [''u1'', ''u2''], departments_table = departments,
          feedback_periods_table = [], feedbacks_table = [], feedback_questions_table = [],
          feedback_seq = 0, feedback_question_seq = 0\<rparr>"

definition asha :: User where
  "asha = \<lparr>id_u = ''u1'', name_u = ''Asha'', email_u = ''asha@example.com'', department_u = ''HR''\<rparr>"

definition period_IT :: FeedbackPeriod where
  "period_IT = \<lparr>id_p = ''FP00000001'', department_p = ''IT'', startDate = 0, endDate = 50,
                active = True,
                questions_p = [\<lparr>id_t = ''q1'', text_t = ''Response time'', type_t = ''rating''\<rparr>],
                createdAt_p = 0\<rparr>"

definition period_HR :: FeedbackPeriod where
  "period_HR = \<lparr>id_p = ''FP00000002'', department_p = ''HR'', startDate = 0, endDate = 60,
                active = True, questions_p = [], createdAt_p = 0\<rparr>"

definition period_Civil :: FeedbackPeriod where
  "period_Civil = \<lparr>id_p = ''FP00000003'', department_p = ''Civil'', startDate = 0, endDate = 70,
                   active = True, questions_p = [], createdAt_p = 0\<rparr>"

definition form_rating :: "string \<Rightarrow> FormValues" where
  "form_rating r =
     \<lparr>answers = (\<lambda>k. if k = ''q1'' then Some \<lparr>rating_f = r, comment_f = None\<rparr> else None),
      additionalComment_f = None\<rparr>"

definition body_rating :: "int \<Rightarrow> FeedbackBody" where
  "body_rating r =
     \<lparr>userId_b = ''u1'', userName_b = ''Asha'', userEmail_b = ''asha@example.com'',
      userDepartment_b = ''HR'', targetDepartment_b = ''IT'',
      questions_b = [\<lparr>id_s = ''q1'', text_s = ''Response time'', type_s = ''rating'',
                       rating_s = Some r, comment_s = Some []\<rparr>],
      additionalComment_b = Some []\<rparr>"

definition bad_row :: FeedbackRow where
  "bad_row = \<lparr>ID = ''FB00000009'', USER_ID = ''u2'', USER_NAME = ''Ravi'',
              USER_EMAIL = ''ravi@example.com'', USER_DEPARTMENT = ''Civil'',
              TARGET_DEPARTMENT = ''IT'', QUESTIONS = Some ''{not json'',
              ADDITIONAL_COMMENT = None, CREATED_AT = 5\<rparr>"

definition good_row :: FeedbackRow where
  "good_row = \<lparr>ID = ''FB00000001'', USER_ID = ''u1'', USER_NAME = ''Asha'',
               USER_EMAIL = ''asha@example.com'', USER_DEPARTMENT = ''HR'',
               TARGET_DEPARTMENT = ''IT'', QUESTIONS = Some ''[q1:4;]'',
               ADDITIONAL_COMMENT = None, CREATED_AT = 3\<rparr>"

definition db_after_first :: Db where
  "db_after_first = snd (post_api_feedbacks example_stringify 100 (body_rating 4) db0)"

text \<open>A database with two active periods, before and after two submissions of the same request.\<close>

definition period_rows :: "FeedbackPeriodRow list" where
  "period_rows =
     [\<lparr>ID_fp = ''FP00000001'', DEPARTMENT = ''IT'', START_DATE = 0, END_DATE = 200,
       QUESTIONS_fp = Some ''[]'', ACTIVE = 1, CREATED_AT_fp = 0\<rparr>,
      \<lparr>ID_fp = ''FP00000002'', DEPARTMENT = ''Civil'', START_DATE = 0, END_DATE = 300,
       QUESTIONS_fp = Some ''[]'', ACTIVE = 1, CREATED_AT_fp = 0\<rparr>]"

definition stored_feedback :: "string \<Rightarrow> int \<Rightarrow> FeedbackRow" where
  "stored_feedback fid t =
     \<lparr>ID = fid, USER_ID = ''u1'', USER_NAME = ''Asha'', USER_EMAIL = ''asha@example.com'',
      USER_DEPARTMENT = ''HR'', TARGET_DEPARTMENT = ''IT'', QUESTIONS = Some ''[q1:4;]'',
      ADDITIONAL_COMMENT = None, CREATED_AT = t\<rparr>"

definition stored_question :: "string \<Rightarrow> string \<Rightarrow> int \<Rightarrow> FeedbackQuestionRow" where
  "stored_question qid fid t =
     \<lparr>ID_fq = qid, FEEDBACK_ID = fid, TEXT_fq = Some ''Response time'', RATING = Some 4,
      COMMENTS = None, CREATED_AT_fq = t\<rparr>"

definition db_periods :: Db where
  "db_periods =
     \<lparr>users_table = [''u1'', ''u2''], departments_table = departments,
      feedback_periods_table = period_rows, feedbacks_table = [], feedback_questions_table = [],
      feedback_seq = 0, feedback_question_seq = 0\<rparr>"

definition db_periods_after_first :: Db where
  "db_periods_after_first =
     \<lparr>users_table = [''u1'', ''u2''], departments_table = departments,
      feedback_periods_table = period_rows,
      feedbacks_table = [stored_feedback ''FB00000001'' 100],
      feedback_questions_table = [stored_question ''FQ00000001'' ''FB00000001'' 100],
      feedback_seq = 1, feedback_question_seq = 1\<rparr>"

definition db_periods_after_second :: Db where
  "db_periods_after_second =
     \<lparr>users_table = [''u1'', ''u2''], departments_table = departments,
      feedback_periods_table = period_rows,
      feedbacks_table = [stored_feedback ''FB00000001'' 100, stored_feedback ''FB00000002'' 101],
      feedback_questions_table = [stored_question ''FQ00000001'' ''FB00000001'' 100,
                                  stored_question ''FQ00000002'' ''FB00000002'' 101],
      feedback_seq = 2, feedback_question_seq = 2\<rparr>"

definition example_parse_p :: "string \<Rightarrow> Question list option" where
  "example_parse_p s = (if s = ''[]'' then Some [] else None)"

text \<open>
  A store holding the two feedbacks of the specification's example, the feedbacks array at
  address 7; and a store holding three periods, their array at address 3 and the array of
  submitted departments at address 4.
\<close>

definition heap_feedbacks :: heap where
  "heap_feedbacks =
    [QuestionObj \<lparr>id_q = ''q1'', text_q = ''Response time'', rating = 5, comment = None\<rparr>,
     QuestionObj \<lparr>id_q = ''q2'', text_q = ''Quality of support'', rating = 3,
                  comment = Some ''slow''\<rparr>,
     Arr [0, 1],
     FeedbackObj ''FB00000001'' ''u1'' ''Asha'' ''asha@example.com'' ''HR'' ''IT'' 2 None 2,
     QuestionObj \<lparr>id_q = ''q1'', text_q = ''Response time'', rating = 1, comment = Some ''late''\<rparr>,
     Arr [4],
     FeedbackObj ''FB00000002'' ''u2'' ''Ravi'' ''ravi@example.com'' ''Civil'' ''IT'' 5 None 1,
     Arr [3, 6]]"

definition heap_periods :: heap where
  "heap_periods =
    [PeriodObj period_IT, PeriodObj period_HR, PeriodObj period_Civil, Arr [0, 1, 2],
     StrArr [''IT'']]"

section \<open>Basic facts about the aggregation\<close>

lemma fold_snoc_map: "fold (\<lambda>x acc. acc @ [f x]) xs ys = ys @ map f xs"
  by (induction xs arbitrary: ys) simp_all

lemma departmentStats_map: "departmentStats feedbacks = map (department_entry feedbacks) departments"
  by (simp add: departmentStats_def fold_snoc_map)

lemma department_entry_name: "department (department_entry feedbacks d) = d"
  by (simp add: department_entry_def Let_def split: prod.split)

lemma distinct_departments: "distinct departments"
  by (simp add: departments_def)

lemma find_map_key:
  "distinct xs \<Longrightarrow> d \<in> set xs \<Longrightarrow> (\<And>x. key (f x) = x) \<Longrightarrow>
   find (\<lambda>s. key s = d) (map f xs) = Some (f d)"
  by (induction xs) auto

lemma stats_of_entry:
  "d \<in> set departments \<Longrightarrow> stats_of feedbacks d = Some (department_entry feedbacks d)"
  unfolding stats_of_def departmentStats_map
  by (rule find_map_key [OF distinct_departments]) (simp_all add: department_entry_name)

subsection \<open>The question map computes the grouping\<close>

lemma fold_nested_concat:
  "fold (\<lambda>x acc. fold g (h x) acc) xs acc = fold g (concat (map h xs)) acc"
  by (induction xs arbitrary: acc) simp_all

lemma map_has_iff: "map_has m k \<longleftrightarrow> k \<in> fst ` set m"
  by (induction m) auto

lemma map_set_new: "\<not> map_has m k \<Longrightarrow> map_set m k v = m @ [(k, v)]"
  by (induction m) auto

lemma map_get_map_set: "map_get (map_set m k v) k = Some v"
  by (induction m) auto

lemma map_get_present: "map_has m k \<Longrightarrow> \<exists>v. map_get m k = Some v"
  by (induction m) auto

lemma collect_question_lookup:
  "\<exists>stats. map_get (if \<not> map_has m k then map_set m k v else m) k = Some stats"
  by (cases "map_has m k") (simp_all add: map_get_map_set map_get_present)

lemma map_set_map_set: "map_set (map_set m k v) k v' = map_set m k v'"
  by (induction m) auto

lemma map_get_keyed:
  "map_get (map (\<lambda>x. (key x, g x)) xs) k = map_option g (find (\<lambda>x. key x = k) xs)"
  by (induction xs) auto

lemma map_set_keyed:
  "distinct (map key xs) \<Longrightarrow> k \<in> key ` set xs \<Longrightarrow>
   map_set (map (\<lambda>x. (key x, g x)) xs) k v =
   map (\<lambda>x. (key x, if key x = k then v else g x)) xs"
  by (induction xs) (auto simp: image_iff)

lemma first_encounters_ids: "id_q ` set (first_encounters qs) = id_q ` set qs"
proof (induction qs)
  case Nil
  show ?case by simp
next
  case (Cons a qs)
  have "id_q ` set (filter (\<lambda>x. id_q x \<noteq> id_q a) (first_encounters qs))
          = id_q ` set (first_encounters qs) - {id_q a}"
    by auto
  with Cons show ?case by auto
qed

lemma first_encounters_distinct: "distinct (map id_q (first_encounters qs))"
  by (induction qs) (auto simp: distinct_map_filter)

lemma first_encounters_snoc:
  "first_encounters (qs @ [q]) =
     (if id_q q \<in> id_q ` set qs then first_encounters qs else first_encounters qs @ [q])"
  by (induction qs) auto

lemma ratings_of_snoc:
  "ratings_of (qs @ [q]) k = (if id_q q = k then ratings_of qs k @ [rating q] else ratings_of qs k)"
  by (simp add: ratings_of_def)

lemma ratings_of_absent: "k \<notin> id_q ` set qs \<Longrightarrow> ratings_of qs k = []"
  by (auto simp: ratings_of_def filter_empty_conv)

lemma grouped_keys: "fst ` set (grouped qs) = id_q ` set qs"
proof -
  have "fst ` set (grouped qs) = id_q ` set (first_encounters qs)"
    by (force simp: grouped_def)
  then show ?thesis by (simp add: first_encounters_ids)
qed

lemma collect_question_new:
  assumes "id_q q \<notin> id_q ` set qs"
  shows "collect_question (grouped qs) q = grouped (qs @ [q])"
proof -
  let ?k = "id_q q"
  let ?init = "\<lparr>questionId_m = ?k, questionText_m = text_q q, totalRating = 0, count_m = 0\<rparr>"
  let ?upd = "\<lparr>questionId_m = ?k, questionText_m = text_q q, totalRating = rating q, count_m = 1\<rparr>"
  have nohas: "\<not> map_has (grouped qs) ?k"
    using assms by (simp add: map_has_iff grouped_keys)
  have "collect_question (grouped qs) q = map_set (grouped qs) ?k ?upd"
    using nohas by (simp add: collect_question_def map_get_map_set map_set_map_set)
  also have "\<dots> = grouped qs @ [(?k, ?upd)]"
    using nohas by (rule map_set_new)
  also have "\<dots> = grouped (qs @ [q])"
  proof -
    have old: "group_acc (qs @ [q]) x = group_acc qs x" if "x \<in> set (first_encounters qs)" for x
    proof -
      from that have "id_q x \<in> id_q ` set qs"
        using first_encounters_ids by blast
      with assms have "id_q q \<noteq> id_q x" by auto
      then show ?thesis by (simp add: group_acc_def ratings_of_snoc)
    qed
    have new: "group_acc (qs @ [q]) q = ?upd"
      using assms by (simp add: group_acc_def ratings_of_snoc ratings_of_absent)
    show ?thesis
      using assms old new by (simp add: grouped_def first_encounters_snoc)
  qed
  finally show ?thesis .
qed

lemma collect_question_old:
  assumes "id_q q \<in> id_q ` set qs"
  shows "collect_question (grouped qs) q = grouped (qs @ [q])"
proof -
  let ?k = "id_q q"
  let ?fe = "first_encounters qs"
  have has: "map_has (grouped qs) ?k"
    using assms by (simp add: map_has_iff grouped_keys)
  have "?k \<in> id_q ` set ?fe"
    using assms by (simp add: first_encounters_ids)
  then obtain x0 where x0: "find (\<lambda>x. id_q x = ?k) ?fe = Some x0"
    by (cases "find (\<lambda>x. id_q x = ?k) ?fe") (auto simp: find_None_iff)
  then have x0_in: "x0 \<in> set ?fe" and x0_id: "id_q x0 = ?k"
    by (auto simp: find_Some_iff)
  have uniq: "x = x0" if "x \<in> set ?fe" "id_q x = ?k" for x
    using first_encounters_distinct [of qs] that x0_in x0_id
    by (metis distinct_map inj_on_eq_iff)
  let ?v = "(group_acc qs x0)\<lparr>totalRating := totalRating (group_acc qs x0) + rating q,
                               count_m := count_m (group_acc qs x0) + 1\<rparr>"
  have get: "map_get (grouped qs) ?k = Some (group_acc qs x0)"
    by (simp add: grouped_def map_get_keyed x0)
  have "collect_question (grouped qs) q = map_set (grouped qs) ?k ?v"
    using has get by (simp add: collect_question_def)
  also have "\<dots> = map (\<lambda>x. (id_q x, if id_q x = ?k then ?v else group_acc qs x)) ?fe"
    unfolding grouped_def
    by (rule map_set_keyed [OF first_encounters_distinct]) (simp add: first_encounters_ids assms)
  also have "\<dots> = map (\<lambda>x. (id_q x, group_acc (qs @ [q]) x)) ?fe"
  proof (rule map_cong [OF refl])
    fix x assume x: "x \<in> set ?fe"
    show "(id_q x, if id_q x = ?k then ?v else group_acc qs x) = (id_q x, group_acc (qs @ [q]) x)"
    proof (cases "id_q x = ?k")
      case True
      with x have "x = x0" by (rule uniq)
      then show ?thesis using x0_id by (simp add: group_acc_def ratings_of_snoc)
    next
      case False
      then show ?thesis by (simp add: group_acc_def ratings_of_snoc)
    qed
  qed
  also have "\<dots> = grouped (qs @ [q])"
    using assms by (simp add: grouped_def first_encounters_snoc)
  finally show ?thesis .
qed

lemma collect_question_grouped: "collect_question (grouped qs) q = grouped (qs @ [q])"
  by (cases "id_q q \<in> id_q ` set qs") (simp_all add: collect_question_new collect_question_old)

lemma fold_collect_grouped: "fold (\<lambda>q m. collect_question m q) qs [] = grouped qs"
proof (induction qs rule: rev_induct)
  case Nil
  show ?case by (simp add: grouped_def)
next
  case (snoc q qs)
  then show ?case by (simp add: collect_question_grouped)
qed

lemma collect_questions_grouped:
  "collect_questions departmentFeedbacks = grouped (all_questions departmentFeedbacks)"
  by (simp add: collect_questions_def all_questions_def fold_nested_concat fold_collect_grouped)

lemma fold_totals:
  "fold (\<lambda>question (tr, tq). (tr + rating question, tq + 1)) qs (a, b)
     = (a + sum_list (map rating qs), b + length qs)"
  by (induction qs arbitrary: a b) simp_all

lemma overall_totals_eq:
  "overall_totals departmentFeedbacks =
     (sum_list (map rating (all_questions departmentFeedbacks)),
      length (all_questions departmentFeedbacks))"
  using fold_totals [of "all_questions departmentFeedbacks" 0 0]
  by (simp add: overall_totals_def all_questions_def fold_nested_concat)

subsection \<open>The entry of one department, in terms of its partition\<close>

lemma fold_snoc_map_prod:
  "fold (\<lambda>(k, v) acc. acc @ [f v]) m ys = ys @ map (\<lambda>(k, v). f v) m"
  by (induction m arbitrary: ys) auto

lemma question_stats_grouped: "question_stats (grouped qs) = grouped_question_stats qs"
  by (simp add: question_stats_def fold_snoc_map_prod grouped_def grouped_question_stats_def
      comp_def question_stat_def group_acc_def average_def)

lemma department_entry_questionStats:
  "questionStats (department_entry feedbacks d) =
     grouped_question_stats (all_questions (partition_of feedbacks d))"
  by (simp add: department_entry_def partition_of_def Let_def collect_questions_grouped
      question_stats_grouped overall_totals_eq all_questions_def grouped_question_stats_def)

lemma department_entry_averageRating:
  "averageRating (department_entry feedbacks d) =
     average (map rating (all_questions (partition_of feedbacks d)))"
  by (simp add: department_entry_def partition_of_def Let_def overall_totals_eq average_def
      all_questions_def)

lemma department_entry_totalFeedbacks:
  "totalFeedbacks (department_entry feedbacks d) = length (partition_of feedbacks d)"
  by (simp add: department_entry_def partition_of_def Let_def overall_totals_eq)


lemma collect_questions_counts:
  "(k, stats) \<in> set (collect_questions departmentFeedbacks) \<Longrightarrow> count_m stats > 0"
proof -
  assume "(k, stats) \<in> set (collect_questions departmentFeedbacks)"
  then obtain q where q: "q \<in> set (first_encounters (all_questions departmentFeedbacks))"
    and st: "stats = group_acc (all_questions departmentFeedbacks) q"
    by (auto simp: collect_questions_grouped grouped_def)
  from q have "id_q q \<in> id_q ` set (all_questions departmentFeedbacks)"
    using first_encounters_ids by blast
  then have "ratings_of (all_questions departmentFeedbacks) (id_q q) \<noteq> []"
    by (auto simp: ratings_of_def filter_empty_conv)
  with st show ?thesis by (simp add: group_acc_def)
qed

lemma partition_of_append:
  "partition_of (xs @ ys) d = partition_of xs d @ partition_of ys d"
  by (simp add: partition_of_def)

lemma all_questions_append: "all_questions (xs @ ys) = all_questions xs @ all_questions ys"
  by (simp add: all_questions_def)

lemma all_questions_skip_empty:
  "questions f = [] \<Longrightarrow>
   all_questions (partition_of (xs @ f # ys) d) = all_questions (partition_of (xs @ ys) d)"
  by (simp add: partition_of_def all_questions_def)

lemma length_partition_insert:
  "length (partition_of (xs @ f # ys) d) =
     length (partition_of (xs @ ys) d) + (if targetDepartment f = d then 1 else 0)"
  by (simp add: partition_of_def)

lemma ratings_view_skip_empty:
  assumes "questions f = []"
  shows "map ratings_view (departmentStats (xs @ f # ys)) = map ratings_view (departmentStats (xs @ ys))"
  by (simp add: departmentStats_map ratings_view_def department_entry_name
      department_entry_averageRating department_entry_questionStats
      all_questions_skip_empty [OF assms])

subsection \<open>The availability filter\<close>

lemma AvailabilityFilter_eq:
  "id_u user \<noteq> [] \<Longrightarrow>
   AvailabilityFilter periods submitted user =
     filter (\<lambda>p. department_p p \<noteq> department_u user \<and> department_p p \<notin> set submitted) periods"
  by (simp add: AvailabilityFilter_def fetchAvailableFeedbacks_def availablePeriods_def
      initial_state_def conj_commute)

subsection \<open>Submitting a feedback\<close>

lemma length_LPAD: "length (LPAD s n c) = n"
  by (simp add: LPAD_def)

lemma length_feedback_id: "length (feedback_id n) = 10"
  by (simp add: feedback_id_def length_LPAD)

lemma length_feedback_question_id: "length (feedback_question_id n) = 10"
  by (simp add: feedback_question_id_def length_LPAD)

lemma feedback_id_nonempty: "feedback_id n \<noteq> []"
  by (simp add: feedback_id_def)

lemma feedback_question_id_nonempty: "feedback_question_id n \<noteq> []"
  by (simp add: feedback_question_id_def)

lemma or_null_Some: "or_null (Some s) = None \<longleftrightarrow> s = []"
  by (simp add: or_null_def)

text \<open>One insert into \<open>feedback_questions\<close>.\<close>

lemma insert_feedback_question_cases:
  "insert_feedback_question now fid q db =
     (let n = feedback_question_seq db + 1;
          db1 = db\<lparr>feedback_question_seq := n\<rparr>;
          row = \<lparr>ID_fq = feedback_question_id n, FEEDBACK_ID = fid,
                 TEXT_fq = or_null (Some (text_s q)), RATING = rating_s q,
                 COMMENTS = or_null (comment_s q), CREATED_AT_fq = now\<rparr>
      in case check_feedback_questions_row db1 row of
           Some e \<Rightarrow> (Some e, db1)
         | None \<Rightarrow> (None, db1\<lparr>feedback_questions_table := feedback_questions_table db1 @ [row]\<rparr>))"
  by (simp add: insert_feedback_question_def NEXTVAL_feedback_question_seq_def Let_def)

lemma check_question_None_iff:
  assumes "fid \<noteq> []" "length fid \<le> 36" "fid \<in> ID ` set (feedbacks_table db)"
  shows "check_feedback_questions_row db
           \<lparr>ID_fq = feedback_question_id n, FEEDBACK_ID = fid,
            TEXT_fq = or_null (Some (text_s q)), RATING = rating_s q,
            COMMENTS = c, CREATED_AT_fq = now\<rparr> = None
         \<longleftrightarrow> question_ok q \<and> feedback_question_id n \<notin> ID_fq ` set (feedback_questions_table db)"
  using assms
  by (auto simp: check_feedback_questions_row_def question_ok_def or_null_Some
      length_feedback_question_id feedback_question_id_nonempty)


lemma insert_feedback_question_frame:
  "insert_feedback_question now fid q db = (r, db') \<Longrightarrow>
     users_table db' = users_table db \<and> departments_table db' = departments_table db \<and>
     feedbacks_table db' = feedbacks_table db \<and> feedback_seq db' = feedback_seq db \<and>
     feedback_periods_table db' = feedback_periods_table db"
  by (auto simp: insert_feedback_question_cases Let_def split: option.splits)

lemma insert_feedback_questions_frame:
  "insert_feedback_questions now fid qs db = (r, db') \<Longrightarrow>
     users_table db' = users_table db \<and> departments_table db' = departments_table db \<and>
     feedbacks_table db' = feedbacks_table db \<and> feedback_seq db' = feedback_seq db \<and>
     feedback_periods_table db' = feedback_periods_table db"
proof (induction qs arbitrary: db)
  case Nil
  then show ?case by simp
next
  case (Cons q qs)
  obtain r1 db1 where s: "insert_feedback_question now fid q db = (r1, db1)"
    by (cases "insert_feedback_question now fid q db")
  note f = insert_feedback_question_frame [OF s]
  show ?case
  proof (cases r1)
    case None
    with Cons.prems s have "insert_feedback_questions now fid qs db1 = (r, db')" by simp
    from Cons.IH [OF this] f show ?thesis by simp
  next
    case (Some e)
    with Cons.prems s have "db' = db1" by simp
    with f show ?thesis by simp
  qed
qed

lemma insert_feedback_questions_None_iff:
  assumes "fid \<noteq> []" "length fid \<le> 36" "fid \<in> ID ` set (feedbacks_table db)"
  shows "fst (insert_feedback_questions now fid qs db) = None \<longleftrightarrow>
           list_all question_ok qs
           \<and> distinct (question_ids_from (feedback_question_seq db) (length qs))
           \<and> (\<forall>i \<in> set (question_ids_from (feedback_question_seq db) (length qs)).
                 i \<notin> ID_fq ` set (feedback_questions_table db))"
  using assms(3)
proof (induction qs arbitrary: db)
  case Nil
  show ?case by simp
next
  case (Cons q qs)
  let ?n = "Suc (feedback_question_seq db)"
  let ?db1 = "db\<lparr>feedback_question_seq := ?n\<rparr>"
  let ?row = "\<lparr>ID_fq = feedback_question_id ?n, FEEDBACK_ID = fid,
                TEXT_fq = or_null (Some (text_s q)), RATING = rating_s q,
                COMMENTS = or_null (comment_s q), CREATED_AT_fq = now\<rparr>"
  let ?db2 = "?db1\<lparr>feedback_questions_table := feedback_questions_table ?db1 @ [?row]\<rparr>"
  have fid1: "fid \<in> ID ` set (feedbacks_table ?db1)"
    using Cons.prems by simp
  note chk = check_question_None_iff [OF assms(1,2) fid1, of ?n q "or_null (comment_s q)" now]
  show ?case
  proof (cases "check_feedback_questions_row ?db1 ?row")
    case (Some e)
    then have "fst (insert_feedback_questions now fid (q # qs) db) = Some e"
      by (simp add: insert_feedback_question_cases Let_def)
    moreover from Some chk
    have "\<not> (question_ok q \<and> feedback_question_id ?n \<notin> ID_fq ` set (feedback_questions_table db))"
      by simp
    ultimately show ?thesis by auto
  next
    case None
    then have step: "insert_feedback_questions now fid (q # qs) db =
                     insert_feedback_questions now fid qs ?db2"
      by (simp add: insert_feedback_question_cases Let_def)
    from None chk have ok: "question_ok q"
      and new: "feedback_question_id ?n \<notin> ID_fq ` set (feedback_questions_table db)"
      by simp_all
    have fid2: "fid \<in> ID ` set (feedbacks_table ?db2)"
      using Cons.prems by simp
    show ?thesis
      unfolding step Cons.IH [OF fid2]
      using ok new by auto
  qed
qed

lemma insert_feedback_questions_rows:
  "insert_feedback_questions now fid qs db = (None, db') \<Longrightarrow>
   \<exists>new. feedback_questions_table db' = feedback_questions_table db @ new \<and>
         map RATING new = map rating_s qs"
proof (induction qs arbitrary: db)
  case Nil
  then show ?case by simp
next
  case (Cons q qs)
  obtain r1 db1 where s: "insert_feedback_question now fid q db = (r1, db1)"
    by (cases "insert_feedback_question now fid q db")
  with Cons.prems have r1: "r1 = None"
    by (cases r1) simp_all
  with Cons.prems s have rest: "insert_feedback_questions now fid qs db1 = (None, db')"
    by simp
  from s r1 obtain row where row: "feedback_questions_table db1 = feedback_questions_table db @ [row]"
    and rat: "RATING row = rating_s q"
    by (auto simp: insert_feedback_question_cases Let_def split: option.splits)
  from Cons.IH [OF rest] obtain new where
    "feedback_questions_table db' = feedback_questions_table db1 @ new"
    "map RATING new = map rating_s qs"
    by blast
  with row rat have "feedback_questions_table db' = feedback_questions_table db @ (row # new)
      \<and> map RATING (row # new) = map rating_s (q # qs)"
    by simp
  then show ?case by blast
qed


lemma insert_feedback_cases:
  "insert_feedback now body questionsJson db =
     (let n = feedback_seq db + 1;
          db1 = db\<lparr>feedback_seq := n\<rparr>;
          row = \<lparr>ID = feedback_id n, USER_ID = userId_b body, USER_NAME = userName_b body,
                 USER_EMAIL = userEmail_b body, USER_DEPARTMENT = userDepartment_b body,
                 TARGET_DEPARTMENT = targetDepartment_b body,
                 QUESTIONS = or_null (Some questionsJson),
                 ADDITIONAL_COMMENT = or_null (additionalComment_b body),
                 CREATED_AT = now\<rparr>
      in case check_feedbacks_row db1 row of
           Some e \<Rightarrow> (Inl e, db1)
         | None \<Rightarrow> (Inr (ID row), db1\<lparr>feedbacks_table := feedbacks_table db1 @ [row]\<rparr>))"
  by (simp add: insert_feedback_def NEXTVAL_feedback_seq_def Let_def)

lemma check_feedback_None_iff:
  "check_feedbacks_row db
     \<lparr>ID = feedback_id n, USER_ID = userId_b body, USER_NAME = userName_b body,
      USER_EMAIL = userEmail_b body, USER_DEPARTMENT = userDepartment_b body,
      TARGET_DEPARTMENT = targetDepartment_b body,
      QUESTIONS = or_null (Some questionsJson),
      ADDITIONAL_COMMENT = c, CREATED_AT = now\<rparr> = None
   \<longleftrightarrow> body_ok db body questionsJson \<and> feedback_id n \<notin> ID ` set (feedbacks_table db)"
  by (auto simp: check_feedbacks_row_def body_ok_def or_null_Some length_feedback_id
      feedback_id_nonempty)

lemma body_ok_frame:
  "users_table db' = users_table db \<Longrightarrow> departments_table db' = departments_table db \<Longrightarrow>
   body_ok db' body questionsJson = body_ok db body questionsJson"
  by (simp add: body_ok_def)

text \<open>What an accepted submission has done.\<close>

lemma post_accepted_D:
  assumes "post_api_feedbacks JSON_stringify now body db = (Inr fid, db')"
  shows "body_ok db body (JSON_stringify (questions_b body))"
    and "list_all question_ok (questions_b body)"
    and "users_table db' = users_table db"
    and "departments_table db' = departments_table db"
    and "\<exists>row. feedbacks_table db' = feedbacks_table db @ [row] \<and> ID row = fid \<and>
           USER_ID row = userId_b body \<and> TARGET_DEPARTMENT row = targetDepartment_b body \<and>
           QUESTIONS row = Some (JSON_stringify (questions_b body))"
    and "\<exists>new. feedback_questions_table db' = feedback_questions_table db @ new \<and>
           map RATING new = map rating_s (questions_b body)"
proof -
  let ?qj = "JSON_stringify (questions_b body)"
  let ?n = "feedback_seq db + 1"
  let ?db1 = "db\<lparr>feedback_seq := ?n\<rparr>"
  let ?row = "\<lparr>ID = feedback_id ?n, USER_ID = userId_b body, USER_NAME = userName_b body,
                USER_EMAIL = userEmail_b body, USER_DEPARTMENT = userDepartment_b body,
                TARGET_DEPARTMENT = targetDepartment_b body,
                QUESTIONS = or_null (Some ?qj),
                ADDITIONAL_COMMENT = or_null (additionalComment_b body),
                CREATED_AT = now\<rparr>"
  let ?db2 = "?db1\<lparr>feedbacks_table := feedbacks_table ?db1 @ [?row]\<rparr>"
  have chk: "check_feedbacks_row ?db1 ?row = None"
  proof (cases "check_feedbacks_row ?db1 ?row")
    case (Some e)
    then have "fst (post_api_feedbacks JSON_stringify now body db) = Inl e"
      by (simp add: post_api_feedbacks_def insert_feedback_cases Let_def)
    with assms show ?thesis by simp
  qed simp
  then have ins: "insert_feedback now body ?qj db = (Inr (feedback_id ?n), ?db2)"
    by (simp add: insert_feedback_cases Let_def)
  obtain r db3 where qs: "insert_feedback_questions now (feedback_id ?n) (questions_b body) ?db2 = (r, db3)"
    by (cases "insert_feedback_questions now (feedback_id ?n) (questions_b body) ?db2")
  have r: "r = None"
  proof (cases r)
    case (Some e)
    with ins qs have "fst (post_api_feedbacks JSON_stringify now body db) = Inl e"
      by (simp add: post_api_feedbacks_def)
    with assms show ?thesis by simp
  qed simp
  with ins qs assms have fid: "fid = feedback_id ?n" and db': "db' = db3"
    by (simp_all add: post_api_feedbacks_def)
  from chk have ok: "body_ok ?db1 body ?qj"
    using check_feedback_None_iff [of ?db1 ?n body ?qj "or_null (additionalComment_b body)" now]
    by simp
  then show "body_ok db body ?qj"
    by (simp add: body_ok_def)
  have "fst (insert_feedback_questions now (feedback_id ?n) (questions_b body) ?db2) = None"
    using qs r by simp
  then show "list_all question_ok (questions_b body)"
    by (subst (asm) insert_feedback_questions_None_iff)
      (simp_all add: feedback_id_nonempty length_feedback_id)
  note fr = insert_feedback_questions_frame [OF qs]
  from fr db' show "users_table db' = users_table db" by simp
  from fr db' show "departments_table db' = departments_table db" by simp
  from ok have "or_null (Some ?qj) = Some ?qj"
    by (simp add: body_ok_def or_null_def)
  with fr db' fid
  show "\<exists>row. feedbacks_table db' = feedbacks_table db @ [row] \<and> ID row = fid \<and>
           USER_ID row = userId_b body \<and> TARGET_DEPARTMENT row = targetDepartment_b body \<and>
           QUESTIONS row = Some ?qj"
    by simp
  from insert_feedback_questions_rows [of now "feedback_id ?n" "questions_b body" ?db2 db3]
    qs r db'
  show "\<exists>new. feedback_questions_table db' = feedback_questions_table db @ new \<and>
           map RATING new = map rating_s (questions_b body)"
    by simp
qed

text \<open>When a submission is accepted.\<close>

lemma post_accepted_I:
  assumes "body_ok db body (JSON_stringify (questions_b body))"
    and "list_all question_ok (questions_b body)"
    and "ids_free db (length (questions_b body))"
  shows "\<exists>db'. post_api_feedbacks JSON_stringify now body db =
                 (Inr (feedback_id (feedback_seq db + 1)), db')"
proof -
  let ?qj = "JSON_stringify (questions_b body)"
  let ?n = "feedback_seq db + 1"
  let ?db1 = "db\<lparr>feedback_seq := ?n\<rparr>"
  let ?row = "\<lparr>ID = feedback_id ?n, USER_ID = userId_b body, USER_NAME = userName_b body,
                USER_EMAIL = userEmail_b body, USER_DEPARTMENT = userDepartment_b body,
                TARGET_DEPARTMENT = targetDepartment_b body,
                QUESTIONS = or_null (Some ?qj),
                ADDITIONAL_COMMENT = or_null (additionalComment_b body),
                CREATED_AT = now\<rparr>"
  let ?db2 = "?db1\<lparr>feedbacks_table := feedbacks_table ?db1 @ [?row]\<rparr>"
  have "body_ok ?db1 body ?qj"
    using assms(1) by (simp add: body_ok_def)
  moreover have "feedback_id ?n \<notin> ID ` set (feedbacks_table ?db1)"
    using assms(3) by (simp add: ids_free_def)
  ultimately have chk: "check_feedbacks_row ?db1 ?row = None"
    using check_feedback_None_iff [of ?db1 ?n body ?qj "or_null (additionalComment_b body)" now]
    by simp
  then have ins: "insert_feedback now body ?qj db = (Inr (feedback_id ?n), ?db2)"
    by (simp add: insert_feedback_cases Let_def)
  have "fst (insert_feedback_questions now (feedback_id ?n) (questions_b body) ?db2) = None"
    by (subst insert_feedback_questions_None_iff)
      (use assms(2,3) in \<open>auto simp: feedback_id_nonempty length_feedback_id ids_free_def
         list_all_iff\<close>)
  then obtain db3 where
    "insert_feedback_questions now (feedback_id ?n) (questions_b body) ?db2 = (None, db3)"
    by (cases "insert_feedback_questions now (feedback_id ?n) (questions_b body) ?db2") simp
  with ins show ?thesis
    by (simp add: post_api_feedbacks_def)
qed


lemma parseInt_radio:
  "parseInt ''1'' = Some 1" "parseInt ''2'' = Some 2" "parseInt ''3'' = Some 3"
  "parseInt ''4'' = Some 4" "parseInt ''5'' = Some 5"
  by code_simp+

lemma radio_values_eq: "radio_values = [''1'', ''2'', ''3'', ''4'', ''5'']"
  by code_simp

lemma parseInt_radio_range:
  "List.member radio_values v \<Longrightarrow> \<exists>r. parseInt v = Some r \<and> 1 \<le> r \<and> r \<le> 5"
  by (auto simp: radio_values_eq parseInt_radio)

lemma feedbackQuestions_range:
  assumes "feedbackQuestions data qs = Inr sq"
    and "\<forall>q \<in> set qs. \<forall>a. answers data (id_t q) = Some a \<longrightarrow> List.member radio_values (rating_f a)"
  shows "\<forall>s \<in> set sq. \<exists>r. rating_s s = Some r \<and> 1 \<le> r \<and> r \<le> 5"
  using assms
proof (induction qs arbitrary: sq)
  case Nil
  then show ?case by simp
next
  case (Cons q qs)
  from Cons.prems(1) obtain a rest where a: "answers data (id_t q) = Some a"
    and rest: "feedbackQuestions data qs = Inr rest"
    and sq: "sq = \<lparr>id_s = id_t q, text_s = text_t q, type_s = type_t q,
                   rating_s = parseInt (rating_f a),
                   comment_s = Some (case comment_f a of None \<Rightarrow> [] | Some c \<Rightarrow> c)\<rparr> # rest"
    by (auto split: option.splits if_splits sum.splits)
  from Cons.prems(2) a have "List.member radio_values (rating_f a)"
    by simp
  then have "\<exists>r. parseInt (rating_f a) = Some r \<and> 1 \<le> r \<and> r \<le> 5"
    by (rule parseInt_radio_range)
  moreover from Cons.IH [OF rest] Cons.prems(2)
  have "\<forall>s \<in> set rest. \<exists>r. rating_s s = Some r \<and> 1 \<le> r \<and> r \<le> 5"
    by simp
  ultimately show ?case
    using sq by simp
qed

lemma onSubmit_range:
  assumes "onSubmit (Some user) (Some period) data = Posted body"
    and "\<forall>q \<in> set (questions_p period). \<forall>a. answers data (id_t q) = Some a \<longrightarrow>
           List.member radio_values (rating_f a)"
  shows "\<forall>s \<in> set (questions_b body). \<exists>r. rating_s s = Some r \<and> 1 \<le> r \<and> r \<le> 5"
proof -
  from assms(1) obtain sq where sq: "feedbackQuestions data (questions_p period) = Inr sq"
    and b: "questions_b body = sq"
    by (auto simp: onSubmit_def split: sum.splits if_splits)
  from feedbackQuestions_range [OF sq assms(2)] b show ?thesis by simp
qed

subsection \<open>The store\<close>

lemma lookup_Some_less: "lookup h a = Some ob \<Longrightarrow> a < length h"
  by (simp add: lookup_def split: if_splits)

lemma lookup_append: "lookup (h @ [ob]) a = (if a = length h then Some ob else lookup h a)"
  by (auto simp: lookup_def nth_append)

lemma lookup_store:
  "lookup (store a ob h) b = (if b = a \<and> a < length h then Some ob else lookup h b)"
  by (auto simp: lookup_def store_def)

lemma length_store: "length (store a ob h) = length h"
  by (simp add: store_def)

lemma take_store: "n \<le> a \<Longrightarrow> take n (store a ob h) = take n h"
  by (simp add: store_def)

lemma preserves_refl: "preserves h h"
  by (simp add: preserves_def)

lemma preserves_length: "preserves g h \<Longrightarrow> length g \<le> length h"
proof -
  assume "preserves g h"
  then have "length (take (length g) h) = length g"
    by (simp add: preserves_def)
  then show ?thesis by simp
qed

lemma preserves_lookup: "preserves g h \<Longrightarrow> lookup g a = Some ob \<Longrightarrow> lookup h a = Some ob"
proof -
  assume p: "preserves g h" and l: "lookup g a = Some ob"
  from l have a: "a < length g" and ob: "g ! a = ob"
    by (auto simp: lookup_def split: if_splits)
  from p have "take (length g) h ! a = g ! a"
    by (simp add: preserves_def)
  with a have "h ! a = g ! a" by simp
  with a ob preserves_length [OF p] show ?thesis
    by (simp add: lookup_def)
qed

lemma preserves_take:
  "preserves g h \<Longrightarrow> length g \<le> n \<Longrightarrow> take n h' = take n h \<Longrightarrow> preserves g h'"
proof -
  assume p: "preserves g h" and n: "length g \<le> n" and t: "take n h' = take n h"
  have "take (length g) h' = take (length g) (take n h')"
    using n by (simp add: min_def)
  also have "\<dots> = take (length g) (take n h)"
    by (simp only: t)
  also have "\<dots> = take (length g) h"
    using n by (simp add: min_def)
  finally show ?thesis
    using p by (simp add: preserves_def)
qed

lemma preserves_trans: "preserves g h \<Longrightarrow> preserves h h' \<Longrightarrow> preserves g h'"
proof -
  assume a: "preserves g h" and b: "preserves h h'"
  have "take (length h) h' = take (length h) h"
    using b by (simp add: preserves_def)
  from preserves_take [OF a preserves_length [OF a] this] show ?thesis .
qed

lemma preserves_append: "preserves h (h @ xs)"
  by (simp add: preserves_def)

subsection \<open>Values read through references\<close>

lemma those_map_Some:
  "those (map f rs) = Some xs \<longleftrightarrow> list_all2 (\<lambda>r x. f r = Some x) rs xs"
proof (induction rs arbitrary: xs)
  case Nil
  show ?case by auto
next
  case (Cons r rs)
  show ?case
    by (cases "f r"; cases "those (map f rs)"; cases xs)
       (use Cons.IH in \<open>auto simp: list_all2_Cons1\<close>)
qed

lemma read_array_mono: "preserves g h \<Longrightarrow> read_array g a = Some rs \<Longrightarrow> read_array h a = Some rs"
  by (auto simp: read_array_def split: option.splits obj.splits dest: preserves_lookup)

lemma read_question_mono:
  "preserves g h \<Longrightarrow> read_question g r = Some q \<Longrightarrow> read_question h r = Some q"
  by (auto simp: read_question_def split: option.splits obj.splits dest: preserves_lookup)

lemma read_period_mono:
  "preserves g h \<Longrightarrow> read_period g r = Some q \<Longrightarrow> read_period h r = Some q"
  by (auto simp: read_period_def split: option.splits obj.splits dest: preserves_lookup)

lemma read_strings_mono:
  "preserves g h \<Longrightarrow> read_strings g r = Some q \<Longrightarrow> read_strings h r = Some q"
  by (auto simp: read_strings_def split: option.splits obj.splits dest: preserves_lookup)

lemma questions_at_mono:
  assumes "preserves g h" and "questions_at g a = Some qs"
  shows "questions_at h a = Some qs"
proof -
  from assms(2) obtain rs where rs: "read_array g a = Some rs"
    and all: "list_all2 (\<lambda>r x. read_question g r = Some x) rs qs"
    by (auto simp: questions_at_def those_map_Some split: option.splits)
  from all have "list_all2 (\<lambda>r x. read_question h r = Some x) rs qs"
    by (rule list_all2_mono) (rule read_question_mono [OF assms(1)])
  with read_array_mono [OF assms(1) rs] show ?thesis
    by (simp add: questions_at_def those_map_Some)
qed

lemma feedback_at_mono:
  assumes "preserves g h" and "feedback_at g r = Some f"
  shows "feedback_at h r = Some f"
proof -
  from assms(2) obtain i u n e ud t qa c ca qs
    where ob: "lookup g r = Some (FeedbackObj i u n e ud t qa c ca)"
      and qs: "questions_at g qa = Some qs"
      and f: "f = \<lparr>id_f = i, userId = u, userName = n, userEmail = e, userDepartment = ud,
                   targetDepartment = t, questions = qs, additionalComment = c, createdAt = ca\<rparr>"
    by (auto simp: feedback_at_def split: option.splits obj.splits)
  from preserves_lookup [OF assms(1) ob] questions_at_mono [OF assms(1) qs] f
  show ?thesis by (simp add: feedback_at_def)
qed

lemma feedbacks_at_mono:
  assumes "preserves g h" and "feedbacks_at g a = Some fs"
  shows "feedbacks_at h a = Some fs"
proof -
  from assms(2) obtain rs where rs: "read_array g a = Some rs"
    and all: "list_all2 (\<lambda>r x. feedback_at g r = Some x) rs fs"
    by (auto simp: feedbacks_at_def those_map_Some split: option.splits)
  from all have "list_all2 (\<lambda>r x. feedback_at h r = Some x) rs fs"
    by (rule list_all2_mono) (rule feedback_at_mono [OF assms(1)])
  with read_array_mono [OF assms(1) rs] show ?thesis
    by (simp add: feedbacks_at_def those_map_Some)
qed

lemma periods_at_mono:
  assumes "preserves g h" and "periods_at g a = Some ps"
  shows "periods_at h a = Some ps"
proof -
  from assms(2) obtain rs where rs: "read_array g a = Some rs"
    and all: "list_all2 (\<lambda>r x. read_period g r = Some x) rs ps"
    by (auto simp: periods_at_def those_map_Some split: option.splits)
  from all have "list_all2 (\<lambda>r x. read_period h r = Some x) rs ps"
    by (rule list_all2_mono) (rule read_period_mono [OF assms(1)])
  with read_array_mono [OF assms(1) rs] show ?thesis
    by (simp add: periods_at_def those_map_Some)
qed

lemma feedback_at_D:
  assumes "feedback_at g r = Some f"
  shows "read_targetDepartment g r = Some (targetDepartment f)"
    and "\<exists>qa qrs. read_questions g r = Some qa \<and> read_array g qa = Some qrs \<and>
           list_all2 (\<lambda>qr q. read_question g qr = Some q) qrs (questions f)"
  using assms
  by (auto simp: feedback_at_def read_targetDepartment_def read_questions_def questions_at_def
      those_map_Some split: option.splits obj.splits)

subsection \<open>Filtering an array\<close>

lemma filter_refs_spec:
  assumes "list_all2 (\<lambda>r x. f r = Some x) rs xs"
    and "\<And>r x. f r = Some x \<Longrightarrow> p r = Some (P x)"
  shows "\<exists>ys. filter_refs p rs = Some ys \<and> list_all2 (\<lambda>r x. f r = Some x) ys (filter P xs)"
  using assms(1)
proof (induction rule: list_all2_induct)
  case Nil
  show ?case by simp
next
  case (Cons r rs x xs)
  from Cons.IH obtain ys where "filter_refs p rs = Some ys"
    "list_all2 (\<lambda>r x. f r = Some x) ys (filter P xs)"
    by blast
  with assms(2) [OF Cons.hyps(1)] Cons.hyps(1) show ?case
    by simp
qed


subsection \<open>The first pass on the store\<close>

lemma entries_has:
  "list_all2 (\<lambda>e kv. fst e = fst kv \<and> lookup h (snd e) = Some (StatsObj (snd kv))) es qm \<Longrightarrow>
   (map_of es k = None) = (\<not> map_has qm k)"
  by (induction rule: list_all2_induct) auto

lemma entries_other_store:
  assumes "list_all2 (\<lambda>e kv. fst e = fst kv \<and> lookup h (snd e) = Some (StatsObj (snd kv))) es qm"
    and "s \<notin> snd ` set es"
  shows "list_all2 (\<lambda>e kv. fst e = fst kv \<and> lookup (store s ob h) (snd e) = Some (StatsObj (snd kv)))
           es qm"
  using assms
  by (induction rule: list_all2_induct) (auto simp: lookup_store)

lemma entries_update:
  assumes "list_all2 (\<lambda>e kv. fst e = fst kv \<and> lookup h (snd e) = Some (StatsObj (snd kv))) es qm"
    and "distinct (map snd es)" and "map_of es k = Some s"
  shows "\<exists>acc. lookup h s = Some (StatsObj acc) \<and> map_get qm k = Some acc \<and>
           (\<forall>acc'. list_all2 (\<lambda>e kv. fst e = fst kv \<and>
                        lookup (store s (StatsObj acc') h) (snd e) = Some (StatsObj (snd kv)))
                      es (map_set qm k acc'))"
  using assms
proof (induction rule: list_all2_induct)
  case Nil
  then show ?case by simp
next
  case (Cons e es kv qm)
  obtain k0 s0 where e: "e = (k0, s0)" by (cases e)
  obtain k1 acc0 where kv: "kv = (k1, acc0)" by (cases kv)
  from Cons.hyps(1) e kv have k1: "k1 = k0" and l0: "lookup h s0 = Some (StatsObj acc0)"
    by simp_all
  from Cons.prems(1) e have s0: "s0 \<notin> snd ` set es" and d: "distinct (map snd es)"
    by auto
  show ?case
  proof (cases "k0 = k")
    case True
    with Cons.prems(2) e have s: "s = s0" by simp
    have "list_all2 (\<lambda>e kv. fst e = fst kv \<and>
                        lookup (store s (StatsObj acc') h) (snd e) = Some (StatsObj (snd kv)))
             (e # es) (map_set (kv # qm) k acc')" for acc'
      using entries_other_store [OF Cons.hyps(2) s0, of "StatsObj acc'"] True e kv k1 s
        lookup_Some_less [OF l0]
      by (simp add: lookup_store)
    with True e kv k1 s l0 show ?thesis by simp
  next
    case False
    with Cons.prems(2) e have m: "map_of es k = Some s" by simp
    from Cons.IH [OF d m] obtain acc where acc: "lookup h s = Some (StatsObj acc)"
      "map_get qm k = Some acc"
      and rest: "\<And>acc'. list_all2 (\<lambda>e kv. fst e = fst kv \<and>
                        lookup (store s (StatsObj acc') h) (snd e) = Some (StatsObj (snd kv)))
                      es (map_set qm k acc')"
      by blast
    from m have "s \<in> snd ` set es"
      by (force dest: map_of_SomeD)
    with s0 have ne: "s0 \<noteq> s" by auto
    have "list_all2 (\<lambda>e kv. fst e = fst kv \<and>
                        lookup (store s (StatsObj acc') h) (snd e) = Some (StatsObj (snd kv)))
             (e # es) (map_set (kv # qm) k acc')" for acc'
      using rest [of acc'] False e kv k1 l0 ne by (simp add: lookup_store)
    with False e kv k1 acc show ?thesis by simp
  qed
qed

lemma collect_question_h_refines:
  assumes mh: "map_holds h m qm" and rq: "read_question h qr = Some q"
  shows "\<exists>h'. collect_question_h m qr h = Some h' \<and> map_holds h' m (collect_question qm q) \<and>
              take m h' = take m h \<and> length h \<le> length h'"
proof -
  let ?k = "id_q q"
  from mh obtain es where m: "lookup h m = Some (MapObj es)" and d: "distinct (map snd es)"
    and gt: "list_all (\<lambda>e. m < snd e) es"
    and rel: "list_all2 (\<lambda>e kv. fst e = fst kv \<and> lookup h (snd e) = Some (StatsObj (snd kv))) es qm"
    by (auto simp: map_holds_def)
  note mlt = lookup_Some_less [OF m]
  have inside: "snd e < length h" if "e \<in> set es" for e
  proof -
    from rel that obtain kv where "lookup h (snd e) = Some (StatsObj (snd kv))"
      by (auto simp: list_all2_conv_all_nth in_set_conv_nth)
    then show ?thesis by (rule lookup_Some_less)
  qed
  have m_notin: "m \<notin> snd ` set es"
    using gt by (auto simp: list_all_iff)
  show ?thesis
  proof (cases "map_of es ?k")
    case None
    let ?init = "\<lparr>questionId_m = ?k, questionText_m = text_q q, totalRating = 0, count_m = 0\<rparr>"
    let ?upd = "?init\<lparr>totalRating := totalRating ?init + rating q, count_m := count_m ?init + 1\<rparr>"
    let ?s = "length h"
    let ?es1 = "es @ [(?k, ?s)]"
    let ?h0 = "h @ [StatsObj ?init]"
    let ?h1 = "store m (MapObj ?es1) ?h0"
    let ?h' = "store ?s (StatsObj ?upd) ?h1"
    have nohas: "\<not> map_has qm ?k"
      using entries_has [OF rel, of ?k] None by simp
    have mo: "map_of ?es1 ?k = Some ?s"
      using None by (simp add: map_add_Some_iff)
    have l1: "lookup ?h1 ?s = Some (StatsObj ?init)"
      using mlt by (simp add: lookup_store lookup_append)
    have run: "collect_question_h m qr h = Some ?h'"
      using rq m None mo l1
      by (simp add: collect_question_h_def alloc_def Let_def del: map_of_append)
    have "collect_question qm q = map_set qm ?k ?upd"
      using nohas by (simp add: collect_question_def map_get_map_set map_set_map_set)
    then have abs: "collect_question qm q = qm @ [(?k, ?upd)]"
      using nohas by (simp add: map_set_new)
    have fresh: "?s \<notin> snd ` set es"
      using inside by (force simp: image_iff)
    have lm: "lookup ?h' m = Some (MapObj ?es1)"
      using mlt by (simp add: lookup_store lookup_append length_store)
    have ls: "lookup ?h' ?s = Some (StatsObj ?upd)"
      by (simp add: lookup_store length_store)
    have "list_all2 (\<lambda>e kv. fst e = fst kv \<and> lookup ?h0 (snd e) = Some (StatsObj (snd kv))) es qm"
      using rel by (rule list_all2_mono) (auto simp: lookup_append dest: lookup_Some_less)
    then have "list_all2 (\<lambda>e kv. fst e = fst kv \<and> lookup ?h1 (snd e) = Some (StatsObj (snd kv))) es qm"
      by (rule entries_other_store) (rule m_notin)
    then have old: "list_all2 (\<lambda>e kv. fst e = fst kv \<and> lookup ?h' (snd e) = Some (StatsObj (snd kv)))
        es qm"
      by (rule entries_other_store) (rule fresh)
    have rel': "list_all2 (\<lambda>e kv. fst e = fst kv \<and> lookup ?h' (snd e) = Some (StatsObj (snd kv)))
        ?es1 (qm @ [(?k, ?upd)])"
      using old ls by (simp add: list_all2_appendI)
    have d': "distinct (map snd ?es1)"
      using d fresh by simp
    have gt': "list_all (\<lambda>e. m < snd e) ?es1"
      using gt mlt by simp
    have holds: "map_holds ?h' m (collect_question qm q)"
      unfolding abs map_holds_def using lm d' gt' rel' by blast
    have tk: "take m ?h' = take m h"
      using mlt by (simp add: take_store)
    have len: "length h \<le> length ?h'"
      by (simp add: length_store)
    from run holds tk len show ?thesis by blast
  next
    case (Some s)
    from entries_update [OF rel d Some] obtain acc where acc: "lookup h s = Some (StatsObj acc)"
      and get: "map_get qm ?k = Some acc"
      and upd: "\<And>acc'. list_all2 (\<lambda>e kv. fst e = fst kv \<and>
                        lookup (store s (StatsObj acc') h) (snd e) = Some (StatsObj (snd kv)))
                      es (map_set qm ?k acc')"
      by blast
    let ?upd = "acc\<lparr>totalRating := totalRating acc + rating q, count_m := count_m acc + 1\<rparr>"
    let ?h' = "store s (StatsObj ?upd) h"
    have has: "map_has qm ?k"
      using entries_has [OF rel, of ?k] Some by simp
    have run: "collect_question_h m qr h = Some ?h'"
      using rq m Some acc by (simp add: collect_question_h_def Let_def)
    have abs: "collect_question qm q = map_set qm ?k ?upd"
      using has get by (simp add: collect_question_def)
    from Some have s_in: "s \<in> snd ` set es"
      by (force dest: map_of_SomeD)
    with gt have ms: "m < s"
      by (auto simp: list_all_iff)
    have lm: "lookup ?h' m = Some (MapObj es)"
      using m ms by (simp add: lookup_store)
    have holds: "map_holds ?h' m (collect_question qm q)"
      unfolding abs map_holds_def using lm d gt upd [of ?upd] by blast
    have tk: "take m ?h' = take m h"
      using ms by (simp add: take_store)
    have len: "length h \<le> length ?h'"
      by (simp add: length_store)
    from run holds tk len show ?thesis by blast
  qed
qed


lemma for_each_refines:
  assumes "list_all2 V xs vs"
    and "\<And>x v a s. V x v \<Longrightarrow> R a s \<Longrightarrow> \<exists>s'. f x s = Some s' \<and> R (g v a) s'"
    and "R a s"
  shows "\<exists>s'. for_each f xs s = Some s' \<and> R (fold g vs a) s'"
  using assms(1,3)
proof (induction arbitrary: a s rule: list_all2_induct)
  case Nil
  then show ?case by simp
next
  case (Cons x xs v vs)
  from assms(2) [OF Cons.hyps(1) Cons.prems] obtain s1 where "f x s = Some s1" "R (g v a) s1"
    by blast
  with Cons.IH [of "g v a" s1] show ?case by simp
qed

lemma collect_feedback_h_refines:
  assumes pg: "preserves g h" and gm: "length g \<le> m" and fa: "feedback_at g fr = Some f"
    and mh: "map_holds h m qm"
  shows "\<exists>h'. collect_feedback_h m fr h = Some h' \<and>
              map_holds h' m (fold (\<lambda>q m'. collect_question m' q) (questions f) qm) \<and>
              take m h' = take m h \<and> length h \<le> length h'"
proof -
  from feedback_at_D(2) [OF fa] obtain qa qrs where qa: "read_questions g fr = Some qa"
    and qrs: "read_array g qa = Some qrs"
    and qs: "list_all2 (\<lambda>qr q. read_question g qr = Some q) qrs (questions f)"
    by blast
  have qa_h: "read_questions h fr = Some qa"
    using qa pg
    by (auto simp: read_questions_def split: option.splits obj.splits dest: preserves_lookup)
  note qrs_h = read_array_mono [OF pg qrs]
  let ?R = "\<lambda>qm' h'. map_holds h' m qm' \<and> take m h' = take m h \<and> length h \<le> length h'"
  have step: "\<exists>s'. collect_question_h m qr s = Some s' \<and> ?R (collect_question a q) s'"
    if "read_question g qr = Some q" and "?R a s" for qr q a s
  proof -
    from that(2) have "preserves g s"
      using preserves_take [OF pg gm] by blast
    from read_question_mono [OF this that(1)] that(2)
    obtain s' where "collect_question_h m qr s = Some s'" "map_holds s' m (collect_question a q)"
      "take m s' = take m s" "length s \<le> length s'"
      using collect_question_h_refines by blast
    with that(2) show ?thesis by auto
  qed
  have "\<exists>s'. for_each (collect_question_h m) qrs h = Some s' \<and>
          ?R (fold (\<lambda>q m'. collect_question m' q) (questions f) qm) s'"
    by (rule for_each_refines [where V = "\<lambda>qr q. read_question g qr = Some q" and R = ?R, OF qs])
       (use step mh in auto)
  with qa_h qrs_h show ?thesis
    by (simp add: collect_feedback_h_def array_for_each_def)
qed

lemma collect_questions_h_refines:
  assumes pg: "preserves g h" and gm: "length g \<le> m"
    and frs: "read_array h dfa = Some frs"
    and dfs: "list_all2 (\<lambda>r f. feedback_at g r = Some f) frs dfs"
    and mh: "map_holds h m qm"
  shows "\<exists>h'. collect_questions_h m dfa h = Some h' \<and>
              map_holds h' m
                (fold (\<lambda>feedback m'. fold (\<lambda>q m''. collect_question m'' q) (questions feedback) m')
                   dfs qm) \<and>
              take m h' = take m h \<and> length h \<le> length h'"
proof -
  let ?R = "\<lambda>qm' h'. map_holds h' m qm' \<and> take m h' = take m h \<and> length h \<le> length h'"
  have step: "\<exists>s'. collect_feedback_h m fr s = Some s' \<and>
                 ?R (fold (\<lambda>q m'. collect_question m' q) (questions f) a) s'"
    if "feedback_at g fr = Some f" and "?R a s" for fr f a s
  proof -
    from that(2) have "preserves g s"
      using preserves_take [OF pg gm] by blast
    from collect_feedback_h_refines [OF this gm that(1)] that(2)
    obtain s' where "collect_feedback_h m fr s = Some s'"
      "map_holds s' m (fold (\<lambda>q m'. collect_question m' q) (questions f) a)"
      "take m s' = take m s" "length s \<le> length s'"
      by blast
    with that(2) show ?thesis by auto
  qed
  have "\<exists>s'. for_each (collect_feedback_h m) frs h = Some s' \<and>
          ?R (fold (\<lambda>feedback m'. fold (\<lambda>q m''. collect_question m'' q) (questions feedback) m')
                dfs qm) s'"
    by (rule for_each_refines [where V = "\<lambda>r f. feedback_at g r = Some f" and R = ?R, OF dfs])
       (use step mh in auto)
  with frs show ?thesis
    by (simp add: collect_questions_h_def array_for_each_def)
qed

subsection \<open>The second and third pass on the store\<close>

lemma question_stats_h_refines:
  assumes mh: "map_holds h m qm" and qe: "lookup h qsa = Some (Arr [])" and lt: "qsa < m"
  shows "\<exists>h'. question_stats_h m qsa h = Some h' \<and>
              question_stats_at h' qsa = Some (question_stats qm) \<and>
              (\<forall>a. a < length h \<longrightarrow> a \<noteq> qsa \<longrightarrow> lookup h' a = lookup h a) \<and>
              length h \<le> length h'"
proof -
  from mh obtain es where m: "lookup h m = Some (MapObj es)"
    and gt: "list_all (\<lambda>e. m < snd e) es"
    and rel: "list_all2 (\<lambda>e kv. fst e = fst kv \<and> lookup h (snd e) = Some (StatsObj (snd kv))) es qm"
    by (auto simp: map_holds_def)
  let ?V = "\<lambda>e kv. lookup h (snd e) = Some (StatsObj (snd kv)) \<and> snd e \<noteq> qsa"
  let ?R = "\<lambda>done s. (\<exists>rs. lookup s qsa = Some (Arr rs) \<and>
                           list_all2 (\<lambda>r x. read_question_stat s r = Some x) rs done \<and>
                           list_all (\<lambda>r. length h \<le> r) rs) \<and>
                     (\<forall>a. a < length h \<longrightarrow> a \<noteq> qsa \<longrightarrow> lookup s a = lookup h a) \<and>
                     length h \<le> length s"
  let ?g = "\<lambda>(k, stats) questionStats. questionStats @ [question_stat stats]"
  have V: "list_all2 ?V es qm"
    using rel gt lt
    by (auto simp: list_all2_conv_all_nth list_all_length)
  note qlt = lookup_Some_less [OF qe]
  have step: "\<exists>s'. push_question_stat qsa e s = Some s' \<and> ?R (?g kv a) s'"
    if v: "?V e kv" and r: "?R a s" for e kv a s
  proof -
    obtain k acc where kv: "kv = (k, acc)" by (cases kv)
    from r obtain rs where rs: "lookup s qsa = Some (Arr rs)"
      and vals: "list_all2 (\<lambda>r x. read_question_stat s r = Some x) rs a"
      and high: "list_all (\<lambda>r. length h \<le> r) rs"
      and frame: "\<And>b. b < length h \<Longrightarrow> b \<noteq> qsa \<Longrightarrow> lookup s b = lookup h b"
      and len: "length h \<le> length s"
      by blast
    from v kv have hs: "lookup h (snd e) = Some (StatsObj acc)" and ne: "snd e \<noteq> qsa"
      by simp_all
    from frame [OF lookup_Some_less [OF hs] ne] hs
    have ss: "lookup s (snd e) = Some (StatsObj acc)" by simp
    let ?r = "length s"
    let ?s1 = "s @ [QuestionStatObj (question_stat acc)]"
    let ?s' = "store qsa (Arr (rs @ [?r])) ?s1"
    have q1: "qsa < length s" using qlt len by simp
    have run: "push_question_stat qsa e s = Some ?s'"
      using ss rs q1
      by (simp add: push_question_stat_def alloc_def push_def read_array_def lookup_append)
    have a1: "lookup ?s' qsa = Some (Arr (rs @ [?r]))"
      using q1 by (simp add: lookup_store)
    have old: "list_all2 (\<lambda>r x. read_question_stat ?s' r = Some x) rs a"
      using vals
    proof (rule list_all2_mono)
      fix r x
      assume rx: "read_question_stat s r = Some x"
      then have "lookup s r = Some (QuestionStatObj x)"
        by (auto simp: read_question_stat_def split: option.splits obj.splits)
      moreover from this rs have "r \<noteq> qsa" by auto
      moreover from calculation have "r < length s" by (auto dest: lookup_Some_less)
      ultimately show "read_question_stat ?s' r = Some x"
        by (simp add: read_question_stat_def lookup_store lookup_append)
    qed
    have new: "read_question_stat ?s' ?r = Some (question_stat acc)"
      using q1 by (simp add: read_question_stat_def lookup_store lookup_append)
    have vals': "list_all2 (\<lambda>r x. read_question_stat ?s' r = Some x) (rs @ [?r])
        (a @ [question_stat acc])"
      using old new by (simp add: list_all2_appendI)
    have high': "list_all (\<lambda>r. length h \<le> r) (rs @ [?r])"
      using high len by simp
    have frame': "\<forall>b. b < length h \<longrightarrow> b \<noteq> qsa \<longrightarrow> lookup ?s' b = lookup h b"
      using frame len by (simp add: lookup_store lookup_append)
    have len': "length h \<le> length ?s'"
      using len by (simp add: length_store)
    from run a1 vals' high' frame' len' kv show ?thesis
      by auto
  qed
  have init: "?R [] h"
    using qe by simp
  have "\<exists>s'. for_each (push_question_stat qsa) es h = Some s' \<and> ?R (fold ?g qm []) s'"
    by (rule for_each_refines [where V = ?V and R = ?R and g = ?g, OF V step init])
  then obtain h' where run: "for_each (push_question_stat qsa) es h = Some h'"
    and R: "?R (fold ?g qm []) h'"
    by blast
  from R have "question_stats_at h' qsa = Some (question_stats qm)"
    by (auto simp: question_stats_at_def read_array_def those_map_Some question_stats_def)
  with run R m show ?thesis
    by (simp add: question_stats_h_def)
qed

lemma for_each_total_question:
  "list_all2 (\<lambda>qr q. read_question h qr = Some q) qrs qs \<Longrightarrow>
   for_each (total_question h) qrs acc =
     Some (fold (\<lambda>question (tr, tq). (tr + rating question, tq + 1)) qs acc)"
  by (induction arbitrary: acc rule: list_all2_induct)
     (simp_all add: total_question_def split_beta)

lemma overall_totals_h_refines:
  assumes pg: "preserves g h" and frs: "read_array h dfa = Some frs"
    and dfs: "list_all2 (\<lambda>r f. feedback_at g r = Some f) frs dfs"
  shows "overall_totals_h h dfa = Some (overall_totals dfs)"
proof -
  let ?t = "\<lambda>feedback acc.
              fold (\<lambda>question (tr, tq). (tr + rating question, tq + 1)) (questions feedback) acc"
  have step: "\<exists>s'. total_feedback h fr s = Some s' \<and> s' = ?t f a"
    if "feedback_at g fr = Some f" and "s = a" for fr f a s
  proof -
    from feedback_at_D(2) [OF feedback_at_mono [OF pg that(1)]]
    obtain qa qrs where "read_questions h fr = Some qa" "read_array h qa = Some qrs"
      "list_all2 (\<lambda>qr q. read_question h qr = Some q) qrs (questions f)"
      by blast
    with that(2) show ?thesis
      by (simp add: total_feedback_def for_each_total_question)
  qed
  have "\<exists>s'. for_each (total_feedback h) frs (0, 0) = Some s' \<and> s' = fold ?t dfs (0, 0)"
    by (rule for_each_refines [where V = "\<lambda>r f. feedback_at g r = Some f" and R = "\<lambda>a s. s = a",
          OF dfs])
       (use step in auto)
  then have "for_each (total_feedback h) frs (0, 0) = Some (fold ?t dfs (0, 0))"
    by blast
  with frs show ?thesis
    by (simp add: overall_totals_h_def overall_totals_def)
qed


subsection \<open>One department on the store\<close>

lemma preserves_iff: "preserves g h \<longleftrightarrow> (\<forall>a < length g. lookup h a = lookup g a)"
proof
  assume p: "preserves g h"
  show "\<forall>a < length g. lookup h a = lookup g a"
  proof (intro allI impI)
    fix a assume "a < length g"
    then have "lookup g a = Some (g ! a)" by (simp add: lookup_def)
    with preserves_lookup [OF p this] show "lookup h a = lookup g a" by simp
  qed
next
  assume all: "\<forall>a < length g. lookup h a = lookup g a"
  have pt: "a < length h \<and> h ! a = g ! a" if "a < length g" for a
    using all that by (auto simp: lookup_def split: if_splits)
  have len: "length g \<le> length h"
  proof (cases g)
    case Nil
    then show ?thesis by simp
  next
    case (Cons x xs)
    then have "length g - 1 < length g" by simp
    from pt [OF this] have "length g - 1 < length h" by simp
    then show ?thesis by arith
  qed
  have "take (length g) h = g"
    by (rule nth_equalityI) (use len pt in auto)
  then show "preserves g h" by (simp add: preserves_def)
qed

lemma take_lookup:
  assumes "take n h' = take n h" and "a < n" and "n \<le> length h" and "n \<le> length h'"
  shows "lookup h' a = lookup h a"
proof -
  have "take n h' ! a = h' ! a" "take n h ! a = h ! a"
    using assms(2) by simp_all
  with assms(1) have "h' ! a = h ! a" by simp
  with assms(2,3,4) show ?thesis by (simp add: lookup_def)
qed

lemma question_stats_at_frame:
  assumes qs: "question_stats_at h qsa = Some qs"
    and frame: "\<And>a. a < length h \<Longrightarrow> a \<noteq> ds \<Longrightarrow> lookup h' a = lookup h a"
    and ds: "lookup h ds = Some (Arr rs0)" and ne: "qsa \<noteq> ds"
  shows "question_stats_at h' qsa = Some qs"
proof -
  from qs obtain rs where rs: "lookup h qsa = Some (Arr rs)"
    and all: "list_all2 (\<lambda>r x. read_question_stat h r = Some x) rs qs"
    by (auto simp: question_stats_at_def read_array_def those_map_Some
        split: option.splits obj.splits)
  from frame [OF lookup_Some_less [OF rs] ne] rs have rs': "lookup h' qsa = Some (Arr rs)"
    by simp
  from all have "list_all2 (\<lambda>r x. read_question_stat h' r = Some x) rs qs"
  proof (rule list_all2_mono)
    fix r x
    assume "read_question_stat h r = Some x"
    then have l: "lookup h r = Some (QuestionStatObj x)"
      by (auto simp: read_question_stat_def split: option.splits obj.splits)
    with ds have "r \<noteq> ds" by auto
    from frame [OF lookup_Some_less [OF l] this] l
    show "read_question_stat h' r = Some x"
      by (simp add: read_question_stat_def)
  qed
  with rs' show ?thesis
    by (simp add: question_stats_at_def read_array_def those_map_Some)
qed

lemma entry_holds_frame:
  assumes e: "entry_holds h ds r y"
    and frame: "\<And>a. a < length h \<Longrightarrow> a \<noteq> ds \<Longrightarrow> lookup h' a = lookup h a"
    and ds: "lookup h ds = Some (Arr rs0)"
  shows "entry_holds h' ds r y"
proof -
  from e obtain d avg n qa qs where l: "lookup h r = Some (DepartmentStatsObj d avg n qa)"
    and qa: "qa \<noteq> ds" and qs: "question_stats_at h qa = Some qs"
    and y: "y = \<lparr>department = d, averageRating = avg, totalFeedbacks = n, questionStats = qs\<rparr>"
    by (auto simp: entry_holds_def entry_at_def split: option.splits obj.splits)
  from l ds have "r \<noteq> ds" by auto
  from frame [OF lookup_Some_less [OF l] this] l
  have l': "lookup h' r = Some (DepartmentStatsObj d avg n qa)" by simp
  from question_stats_at_frame [OF qs frame ds qa] l' qa y show ?thesis
    by (simp add: entry_holds_def entry_at_def)
qed

lemma push_entry:
  assumes sh: "stats_hold h ds ys"
    and frame: "\<And>a. a < length h \<Longrightarrow> a \<noteq> ds \<Longrightarrow> lookup k a = lookup h a"
    and same: "lookup k ds = lookup h ds"
    and qs: "question_stats_at k qsa = Some qs" and ne: "qsa \<noteq> ds"
    and len: "length h \<le> length k"
  shows "\<exists>h'. push ds (length k) (k @ [DepartmentStatsObj d avg n qsa]) = Some h' \<and>
              stats_hold h' ds
                (ys @ [\<lparr>department = d, averageRating = avg, totalFeedbacks = n, questionStats = qs\<rparr>]) \<and>
              (\<forall>a. a < length h \<longrightarrow> a \<noteq> ds \<longrightarrow> lookup h' a = lookup h a) \<and>
              length h \<le> length h'"
proof -
  from sh obtain rs where rs: "lookup h ds = Some (Arr rs)"
    and all: "list_all2 (entry_holds h ds) rs ys"
    by (auto simp: stats_hold_def)
  note dlt = lookup_Some_less [OF rs]
  let ?e = "length k"
  let ?k1 = "k @ [DepartmentStatsObj d avg n qsa]"
  let ?h' = "store ds (Arr (rs @ [?e])) ?k1"
  have dk: "ds < length k" using dlt len by simp
  have run: "push ds (length k) (k @ [DepartmentStatsObj d avg n qsa]) = Some ?h'"
    using rs same dk by (simp add: push_def read_array_def lookup_append)
  have frame': "lookup ?h' a = lookup h a" if "a < length h" "a \<noteq> ds" for a
    using frame [OF that] that len by (simp add: lookup_store lookup_append)
  have l: "lookup ?h' ds = Some (Arr (rs @ [?e]))"
    using dk by (simp add: lookup_store)
  have old: "list_all2 (entry_holds ?h' ds) rs ys"
    using all
  proof (rule list_all2_mono)
    fix r y assume "entry_holds h ds r y"
    then show "entry_holds ?h' ds r y"
      by (rule entry_holds_frame) (use frame' rs in auto)
  qed
  have kframe: "lookup ?h' a = lookup k a" if "a < length k" "a \<noteq> ds" for a
    using that by (simp add: lookup_store lookup_append)
  have kds: "lookup k ds = Some (Arr rs)" using same rs by simp
  have qs': "question_stats_at ?h' qsa = Some qs"
    by (rule question_stats_at_frame [OF qs kframe kds ne])
  have le: "lookup ?h' ?e = Some (DepartmentStatsObj d avg n qsa)"
    using dk by (simp add: lookup_store lookup_append)
  have new: "entry_holds ?h' ds ?e
      \<lparr>department = d, averageRating = avg, totalFeedbacks = n, questionStats = qs\<rparr>"
    using le qs' ne by (simp add: entry_holds_def entry_at_def)
  have "stats_hold ?h' ds
      (ys @ [\<lparr>department = d, averageRating = avg, totalFeedbacks = n, questionStats = qs\<rparr>])"
    unfolding stats_hold_def using l old new by (auto intro: list_all2_appendI)
  moreover have "length h \<le> length ?h'"
    using len by (simp add: length_store)
  ultimately show ?thesis
    using run frame' by blast
qed


lemma department_step_h_refines:
  assumes pg: "preserves g h" and fa: "feedbacks_at g fa = Some fs" and gds: "length g \<le> ds"
    and sh: "stats_hold h ds ys"
  shows "\<exists>h'. department_step_h fa ds d h = Some h' \<and> preserves g h' \<and>
              stats_hold h' ds (ys @ [department_entry fs d])"
proof -
  let ?dfs = "filter (\<lambda>f. targetDepartment f = d) fs"
  from fa obtain rs where rs: "read_array g fa = Some rs"
    and all: "list_all2 (\<lambda>r f. feedback_at g r = Some f) rs fs"
    by (auto simp: feedbacks_at_def those_map_Some split: option.splits)
  note rs_h = read_array_mono [OF pg rs]
  have tg: "targets h d r = Some (targetDepartment f = d)" if "feedback_at g r = Some f" for r f
    using feedback_at_D(1) [OF feedback_at_mono [OF pg that]] by (simp add: targets_def)
  from filter_refs_spec [where f = "feedback_at g" and p = "targets h d"
      and P = "\<lambda>f. targetDepartment f = d", OF all tg]
  obtain frs where frs: "filter_refs (targets h d) rs = Some frs"
    and dfs: "list_all2 (\<lambda>r f. feedback_at g r = Some f) frs ?dfs"
    by blast
  let ?dfa = "length h"
  let ?qsa = "Suc (length h)"
  let ?m = "Suc (Suc (length h))"
  have fl: "filter_array (targets h d) fa h = Some (?dfa, h @ [Arr frs])"
    using rs_h frs by (simp add: filter_array_def alloc_def)
  have r1: "read_array (h @ [Arr frs]) ?dfa = Some frs"
    by (simp add: read_array_def lookup_append)
  from sh obtain rs0 where ds: "lookup h ds = Some (Arr rs0)"
    by (auto simp: stats_hold_def)
  note dlt = lookup_Some_less [OF ds]
  have pres: "preserves g h'" if "\<And>a. a < length h \<Longrightarrow> a \<noteq> ds \<Longrightarrow> lookup h' a = lookup h a" for h'
    unfolding preserves_iff
  proof (intro allI impI)
    fix a assume a: "a < length g"
    with preserves_length [OF pg] gds have "a < length h" "a \<noteq> ds" by simp_all
    from that [OF this] pg a show "lookup h' a = lookup g a"
      by (simp add: preserves_iff)
  qed
  show ?thesis
  proof (cases "frs = []")
    case True
    with dfs have empty: "?dfs = []" by simp
    let ?k = "h @ [Arr [], Arr []]"
    have run: "department_step_h fa ds d h =
        push ds (length ?k) (?k @ [DepartmentStatsObj d 0 0 ?qsa])"
      using fl r1 True by (simp add: department_step_h_def alloc_def)
    have "\<exists>h'. push ds (length ?k) (?k @ [DepartmentStatsObj d 0 0 ?qsa]) = Some h' \<and>
              stats_hold h' ds
                (ys @ [\<lparr>department = d, averageRating = 0, totalFeedbacks = 0, questionStats = []\<rparr>]) \<and>
              (\<forall>a. a < length h \<longrightarrow> a \<noteq> ds \<longrightarrow> lookup h' a = lookup h a) \<and>
              length h \<le> length h'"
      by (rule push_entry [OF sh])
         (use dlt in \<open>auto simp: lookup_def nth_append question_stats_at_def read_array_def\<close>)
    moreover have "department_entry fs d =
        \<lparr>department = d, averageRating = 0, totalFeedbacks = 0, questionStats = []\<rparr>"
      using empty by (simp add: department_entry_def)
    ultimately show ?thesis
      using run pres by auto
  next
    case False
    with dfs have nonempty: "?dfs \<noteq> []" by auto
    from dfs have len_eq: "length frs = length ?dfs"
      by (rule list_all2_lengthD)
    let ?h3 = "h @ [Arr frs, Arr [], MapObj []]"
    have l3: "lookup ?h3 a = lookup h a" if "a < length h" for a
      using that by (simp add: lookup_def nth_append)
    have pg3: "preserves g ?h3"
      by (rule preserves_trans [OF pg preserves_append])
    have gm: "length g \<le> ?m"
      using preserves_length [OF pg] by simp
    have r3: "read_array ?h3 ?dfa = Some frs"
      by (simp add: read_array_def lookup_def nth_append)
    have mh3: "map_holds ?h3 ?m []"
      by (simp add: map_holds_def lookup_def nth_append)
    from collect_questions_h_refines [OF pg3 gm r3 dfs mh3]
    obtain h4 where c4: "collect_questions_h ?m ?dfa ?h3 = Some h4"
      and mh4: "map_holds h4 ?m (collect_questions ?dfs)"
      and t4: "take ?m h4 = take ?m ?h3" and len4: "length ?h3 \<le> length h4"
      unfolding collect_questions_def by blast
    have l4: "lookup h4 a = lookup ?h3 a" if "a < ?m" for a
      by (rule take_lookup [OF t4 that]) (use len4 in auto)
    have q4: "lookup h4 ?qsa = Some (Arr [])"
      using l4 [of ?qsa] by (simp add: lookup_def nth_append)
    from question_stats_h_refines [OF mh4 q4]
    obtain h5 where c5: "question_stats_h ?m ?qsa h4 = Some h5"
      and qs5: "question_stats_at h5 ?qsa = Some (question_stats (collect_questions ?dfs))"
      and f5: "\<And>a. a < length h4 \<Longrightarrow> a \<noteq> ?qsa \<Longrightarrow> lookup h5 a = lookup h4 a"
      and len5: "length h4 \<le> length h5"
      by auto
    have l5: "lookup h5 a = lookup h a" if "a < length h" for a
    proof -
      from that len4 have "a < length h4" "a \<noteq> ?qsa" "a < ?m" by simp_all
      with f5 [of a] l4 [of a] l3 [OF that] show ?thesis by simp
    qed
    have pg5: "preserves g h5"
      by (rule pres) (rule l5)
    have "lookup h5 ?dfa = lookup ?h3 ?dfa"
      using f5 [of ?dfa] l4 [of ?dfa] len4 by simp
    then have r5: "read_array h5 ?dfa = Some frs"
      using r3 by (simp add: read_array_def)
    note t5 = overall_totals_h_refines [OF pg5 r5 dfs]
    obtain tr tq where tot: "overall_totals ?dfs = (tr, tq)"
      by (cases "overall_totals ?dfs")
    let ?avg = "if tq > 0 then of_int tr / of_nat tq else (0::rat)"
    have run: "department_step_h fa ds d h =
        push ds (length h5) (h5 @ [DepartmentStatsObj d ?avg (length frs) ?qsa])"
      using fl r1 False c4 c5 t5 tot
      by (simp add: department_step_h_def alloc_def)
    have "\<exists>h'. push ds (length h5) (h5 @ [DepartmentStatsObj d ?avg (length frs) ?qsa]) = Some h' \<and>
              stats_hold h' ds
                (ys @ [\<lparr>department = d, averageRating = ?avg, totalFeedbacks = length frs,
                        questionStats = question_stats (collect_questions ?dfs)\<rparr>]) \<and>
              (\<forall>a. a < length h \<longrightarrow> a \<noteq> ds \<longrightarrow> lookup h' a = lookup h a) \<and>
              length h \<le> length h'"
      by (rule push_entry [OF sh _ _ qs5])
         (use l5 dlt len4 len5 in auto)
    moreover have "department_entry fs d =
        \<lparr>department = d, averageRating = ?avg, totalFeedbacks = length frs,
         questionStats = question_stats (collect_questions ?dfs)\<rparr>"
      using nonempty tot len_eq by (simp add: department_entry_def Let_def)
    ultimately show ?thesis
      using run pres by auto
  qed
qed

lemma aggregate_h_refines:
  assumes "feedbacks_at h fa = Some fs"
  shows "\<exists>out h'. aggregate_h fa h = Some (out, h') \<and> preserves h h' \<and>
                  department_stats_at h' out = Some (departmentStats fs)"
proof -
  let ?ds = "length h"
  let ?h1 = "h @ [Arr []]"
  let ?R = "\<lambda>ys s. preserves h s \<and> stats_hold s ?ds ys"
  have init: "?R [] ?h1"
    by (simp add: preserves_append stats_hold_def lookup_append)
  have step: "\<exists>s'. department_step_h fa ?ds d s = Some s' \<and> ?R (a @ [department_entry fs d']) s'"
    if "d = d'" and "?R a s" for d d' a s
    using department_step_h_refines [OF _ assms, of s ?ds a d] that by simp
  have "\<exists>s'. for_each (department_step_h fa ?ds) departments ?h1 = Some s' \<and>
          ?R (fold (\<lambda>d stats. stats @ [department_entry fs d]) departments []) s'"
    by (rule for_each_refines [where V = "(=)" and R = ?R])
       (use step init in \<open>auto simp: list_all2_eq [symmetric]\<close>)
  then obtain h' where run: "for_each (department_step_h fa ?ds) departments ?h1 = Some h'"
    and p: "preserves h h'" and sh: "stats_hold h' ?ds (departmentStats fs)"
    unfolding departmentStats_def by blast
  from sh obtain rs where rs: "lookup h' ?ds = Some (Arr rs)"
    and all: "list_all2 (entry_holds h' ?ds) rs (departmentStats fs)"
    by (auto simp: stats_hold_def)
  from all have "list_all2 (\<lambda>r y. entry_at h' r = Some y) rs (departmentStats fs)"
    by (rule list_all2_mono) (simp add: entry_holds_def)
  with rs have "department_stats_at h' ?ds = Some (departmentStats fs)"
    by (simp add: department_stats_at_def read_array_def those_map_Some)
  with run p show ?thesis
    by (simp add: aggregate_h_def alloc_def)
qed


subsection \<open>The availability filter on the store\<close>

lemma filter_array_periods:
  assumes ps: "periods_at h a = Some ps"
    and p: "\<And>r x. read_period h r = Some x \<Longrightarrow> p r = Some (P x)"
  shows "\<exists>h'. filter_array p a h = Some (length h, h') \<and> preserves h h' \<and>
              periods_at h' (length h) = Some (filter P ps)"
proof -
  from ps obtain rs where rs: "read_array h a = Some rs"
    and all: "list_all2 (\<lambda>r x. read_period h r = Some x) rs ps"
    by (auto simp: periods_at_def those_map_Some split: option.splits)
  from filter_refs_spec [where f = "read_period h" and p = p and P = P, OF all p]
  obtain ys where ys: "filter_refs p rs = Some ys"
    and sel: "list_all2 (\<lambda>r x. read_period h r = Some x) ys (filter P ps)"
    by blast
  let ?h' = "h @ [Arr ys]"
  have run: "filter_array p a h = Some (length h, ?h')"
    using rs ys by (simp add: filter_array_def alloc_def)
  have pr: "preserves h ?h'"
    by (rule preserves_append)
  from sel have "list_all2 (\<lambda>r x. read_period ?h' r = Some x) ys (filter P ps)"
    by (rule list_all2_mono) (rule read_period_mono [OF pr])
  then have "periods_at ?h' (length h) = Some (filter P ps)"
    by (simp add: periods_at_def read_array_def lookup_append those_map_Some)
  with run pr show ?thesis by blast
qed

lemma availability_h_refines:
  assumes ps: "periods_at h pa = Some ps" and subs: "read_strings h sa = Some subs"
  shows "\<exists>out h'. availability_h pa sa own h = Some (out, h') \<and> preserves h h' \<and>
                  periods_at h' out =
                    Some (filter (\<lambda>p. \<not> List.member subs (department_p p))
                            (filter (\<lambda>p. department_p p \<noteq> own) ps))"
proof -
  from filter_array_periods [where p = "not_own h own" and P = "\<lambda>p. department_p p \<noteq> own", OF ps]
  obtain h1 where f1: "filter_array (not_own h own) pa h = Some (length h, h1)"
    and p1: "preserves h h1"
    and v1: "periods_at h1 (length h) = Some (filter (\<lambda>p. department_p p \<noteq> own) ps)"
    by (auto simp: not_own_def)
  note s1 = read_strings_mono [OF p1 subs]
  from filter_array_periods [where p = "not_submitted h1 sa"
      and P = "\<lambda>p. \<not> List.member subs (department_p p)", OF v1]
  obtain h2 where f2: "filter_array (not_submitted h1 sa) (length h) h1 = Some (length h1, h2)"
    and p2: "preserves h1 h2"
    and v2: "periods_at h2 (length h1) =
               Some (filter (\<lambda>p. \<not> List.member subs (department_p p))
                       (filter (\<lambda>p. department_p p \<noteq> own) ps))"
    using s1 by (auto simp: not_submitted_def)
  from f1 f2 preserves_trans [OF p1 p2] v2 show ?thesis
    by (simp add: availability_h_def)
qed

subsection \<open>The running example\<close>

lemma first_post: "post_api_feedbacks example_stringify 100 (body_rating 4) db0 = (Inr ''FB00000001'', db_after_first)"
proof -
  have "fst (post_api_feedbacks example_stringify 100 (body_rating 4) db0) = Inr ''FB00000001''"
    by code_simp
  then show ?thesis
    unfolding db_after_first_def by (metis prod.collapse)
qed

lemma db_after_first_tables:
  "feedback_questions_table db_after_first =
     [\<lparr>ID_fq = ''FQ00000001'', FEEDBACK_ID = ''FB00000001'', TEXT_fq = Some ''Response time'',
       RATING = Some 4, COMMENTS = None, CREATED_AT_fq = 100\<rparr>]"
  unfolding db_after_first_def by code_simp

lemma first_post_periods:
  "post_api_feedbacks example_stringify 100 (body_rating 4) db_periods =
     (Inr ''FB00000001'', db_periods_after_first)"
  by code_simp

lemma second_post_periods:
  "post_api_feedbacks example_stringify 101 (body_rating 4) db_periods_after_first =
     (Inr ''FB00000002'', db_periods_after_second)"
  by code_simp

lemma available_after_first:
  "get_api_available_feedbacks example_parse_p 102 ''u1'' db_periods_after_first =
     (Inr \<lparr>feedbackPeriods_d =
             [\<lparr>id_p = ''FP00000001'', department_p = ''IT'', startDate = 0, endDate = 200,
               active = True, questions_p = [], createdAt_p = 0\<rparr>,
              \<lparr>id_p = ''FP00000002'', department_p = ''Civil'', startDate = 0, endDate = 300,
               active = True, questions_p = [], createdAt_p = 0\<rparr>],
           submittedDepartments_d = [''IT'']\<rparr>,
      db_periods_after_first)"
  by code_simp

section \<open>Claims\<close>

subsection \<open>StatsAggregator\<close>

text \<open>
  C1. For a department of the fixed list that at least one feedback targets, the reported overall
  \<open>averageRating\<close> is the sum of all ratings over all questions of all feedbacks of its
  partition, divided by the number of those ratings (not by the number of feedbacks). When the
  partition holds no rating at all the quotient is not defined, and the code reports 0 (see C10).
\<close>

theorem C1_overall_average:
  assumes "d \<in> set departments" and "\<exists>f \<in> set feedbacks. targetDepartment f = d"
  shows "\<exists>s. stats_of feedbacks d = Some s \<and>
             averageRating s =
               (let qs = all_questions (partition_of feedbacks d)
                in if qs = [] then 0 else of_int (sum_list (map rating qs)) / of_nat (length qs))"
  using assms(1)
  by (simp add: stats_of_entry department_entry_averageRating average_def Let_def)

text \<open>
  The example of the specification: \<open>F1 = {q1: 5, q2: 3}\<close> and \<open>F2 = {q1: 1}\<close>, both about
  the same department, give the overall average \<open>(5 + 3 + 1) / 3 = 3\<close>.
\<close>

theorem C1_overall_average_witness:
  "\<exists>s. stats_of [F1, F2] ''IT'' = Some s \<and> averageRating s = 3"
  using C1_overall_average [of "''IT''" "[F1, F2]"]
  by (simp add: departments_def partition_of_def all_questions_def F1_def F2_def)

text \<open>
  C2. For every list of feedbacks the aggregator returns exactly one entry per department of the
  fixed list, in the order of that list: the names of the entries, read in output order, are the
  fixed list itself, which has no repetition. The order of the feedbacks plays no part.
\<close>

theorem C2_one_entry_per_department_in_fixed_order:
  "map department (departmentStats feedbacks) = departments
   \<and> distinct departments
   \<and> map department (departmentStats feedbacks') = map department (departmentStats feedbacks)"
  by (simp add: departmentStats_map comp_def department_entry_name distinct_departments)

theorem C2_one_entry_per_department_in_fixed_order_witness:
  "map department (departmentStats [F1, F2, F3]) = departments
   \<and> map department (departmentStats [F3, F2, F1]) = map department (departmentStats [F1, F2, F3])"
  using C2_one_entry_per_department_in_fixed_order [of "[F1, F2, F3]" "[F3, F2, F1]"]
  by simp

text \<open>
  C4. Within a department's partition the question statistics are the grouping of the
  question-rating pairs by question identifier: one statistic per identifier, in the order in
  which the identifiers are first met, carrying the text of the first pair met and the sum of the
  group's ratings divided by their count. The code guards the division (a count of 0 gives 0),
  and every entry of the question map has a positive count, so no division by zero occurs.
\<close>

theorem C4_question_stats_grouped:
  assumes "d \<in> set departments"
  shows "(\<exists>s. stats_of feedbacks d = Some s \<and>
              questionStats s = grouped_question_stats (all_questions (partition_of feedbacks d)))
         \<and> (\<forall>(k, stats) \<in> set (collect_questions (partition_of feedbacks d)). count_m stats > 0)
         \<and> (count_m acc = 0 \<longrightarrow> averageRating_q (question_stat acc) = 0)"
  using assms
  by (auto simp: stats_of_entry department_entry_questionStats question_stat_def
      dest: collect_questions_counts)

text \<open>In the example of the specification both questions average 3, \<open>q1\<close> first.\<close>

theorem C4_question_stats_grouped_witness:
  "(\<exists>s. stats_of [F1, F2] ''IT'' = Some s \<and>
        questionStats s =
          [\<lparr>questionId = ''q1'', questionText = ''Response time'', averageRating_q = 3\<rparr>,
           \<lparr>questionId = ''q2'', questionText = ''Quality of support'', averageRating_q = 3\<rparr>])
   \<and> averageRating_q (question_stat
         \<lparr>questionId_m = ''q9'', questionText_m = ''Unused'', totalRating = 0, count_m = 0\<rparr>) = 0"
  using C4_question_stats_grouped [of "''IT''" "[F1, F2]"
      "\<lparr>questionId_m = ''q9'', questionText_m = ''Unused'', totalRating = 0, count_m = 0\<rparr>"]
  by (simp add: departments_def partition_of_def all_questions_def F1_def F2_def
      grouped_question_stats_def ratings_of_def average_def)

text \<open>
  C5. A department of the fixed list that no feedback targets is reported with
  \<open>averageRating = 0\<close>, \<open>totalFeedbacks = 0\<close> and \<open>questionStats = []\<close>.
\<close>

theorem C5_empty_department:
  assumes "d \<in> set departments" and "\<forall>f \<in> set feedbacks. targetDepartment f \<noteq> d"
  shows "stats_of feedbacks d =
           Some \<lparr>department = d, averageRating = 0, totalFeedbacks = 0, questionStats = []\<rparr>"
proof -
  from assms(2) have "filter (\<lambda>f. targetDepartment f = d) feedbacks = []"
    by (simp add: filter_empty_conv)
  then have "department_entry feedbacks d =
      \<lparr>department = d, averageRating = 0, totalFeedbacks = 0, questionStats = []\<rparr>"
    by (simp add: department_entry_def)
  with assms(1) show ?thesis by (simp add: stats_of_entry)
qed

theorem C5_empty_department_witness:
  "stats_of [F1, F2] ''HR'' =
     Some \<lparr>department = ''HR'', averageRating = 0, totalFeedbacks = 0, questionStats = []\<rparr>"
  using C5_empty_department [of "''HR''" "[F1, F2]"]
  by (simp add: departments_def F1_def F2_def)

text \<open>
  C8. A row whose question data does not parse is loaded as a feedback with no questions; the
  other rows are loaded as they are, and the aggregation goes on. Compared with the same rows
  without the bad one, every department has the same average and the same question statistics;
  only the number of feedbacks of the bad row's target department is one higher.
\<close>

theorem C8_unparseable_record_isolated:
  assumes "QUESTIONS bad = Some questionsString" and "JSON_parse questionsString = None"
  shows "load_feedbacks JSON_parse (earlier @ bad # later) =
           load_feedbacks JSON_parse earlier @
             row_feedback JSON_parse bad # load_feedbacks JSON_parse later
         \<and> questions (row_feedback JSON_parse bad) = []
         \<and> map ratings_view (departmentStats (load_feedbacks JSON_parse (earlier @ bad # later))) =
           map ratings_view (departmentStats (load_feedbacks JSON_parse (earlier @ later)))
         \<and> map totalFeedbacks (departmentStats (load_feedbacks JSON_parse (earlier @ bad # later))) =
           map (\<lambda>s. totalFeedbacks s + (if department s = TARGET_DEPARTMENT bad then 1 else 0))
             (departmentStats (load_feedbacks JSON_parse (earlier @ later)))"
proof -
  have q: "questions (row_feedback JSON_parse bad) = []"
    using assms by (simp add: row_feedback_def row_questions_def)
  have l: "load_feedbacks JSON_parse (earlier @ bad # later) =
           load_feedbacks JSON_parse earlier @
             row_feedback JSON_parse bad # load_feedbacks JSON_parse later"
    by (simp add: load_feedbacks_def)
  have l2: "load_feedbacks JSON_parse (earlier @ later) =
           load_feedbacks JSON_parse earlier @ load_feedbacks JSON_parse later"
    by (simp add: load_feedbacks_def)
  have t: "targetDepartment (row_feedback JSON_parse bad) = TARGET_DEPARTMENT bad"
    by (simp add: row_feedback_def)
  have v: "map ratings_view (departmentStats (load_feedbacks JSON_parse (earlier @ bad # later))) =
           map ratings_view (departmentStats (load_feedbacks JSON_parse (earlier @ later)))"
    unfolding l l2 by (rule ratings_view_skip_empty [OF q])
  have n: "map totalFeedbacks (departmentStats (load_feedbacks JSON_parse (earlier @ bad # later))) =
           map (\<lambda>s. totalFeedbacks s + (if department s = TARGET_DEPARTMENT bad then 1 else 0))
             (departmentStats (load_feedbacks JSON_parse (earlier @ later)))"
    unfolding l l2
    by (simp add: departmentStats_map department_entry_totalFeedbacks department_entry_name
        length_partition_insert t eq_commute)
  from q l v n show ?thesis by simp
qed

theorem C8_unparseable_record_isolated_witness:
  "questions (row_feedback example_parse bad_row) = []
   \<and> map ratings_view (departmentStats (load_feedbacks example_parse [bad_row, good_row])) =
     map ratings_view (departmentStats (load_feedbacks example_parse [good_row]))
   \<and> map totalFeedbacks (departmentStats (load_feedbacks example_parse [bad_row, good_row])) =
     [2, 0, 0, 0, 0, 0, 0, 0, 0, 0, 0, 0, 0, 0]"
proof -
  have a: "QUESTIONS bad_row = Some ''{not json''"
    by (simp add: bad_row_def)
  have b: "example_parse ''{not json'' = None"
    by (simp add: example_parse_def)
  have c: "map (\<lambda>s. totalFeedbacks s + (if department s = TARGET_DEPARTMENT bad_row then 1 else 0))
             (departmentStats (load_feedbacks example_parse [good_row])) =
     [2, 0, 0, 0, 0, 0, 0, 0, 0, 0, 0, 0, 0, 0]"
    by (simp add: departmentStats_map departments_def department_entry_totalFeedbacks
        department_entry_name partition_of_def load_feedbacks_def row_feedback_def
        good_row_def bad_row_def)
  note t = C8_unparseable_record_isolated
         [where bad = bad_row and JSON_parse = example_parse and earlier = "[]"
            and later = "[good_row]", OF a b]
  from t [THEN conjunct2] c show ?thesis
    by simp
qed

text \<open>
  C10. The reported \<open>totalFeedbacks\<close> of a department is the number of feedback records that
  target it, whatever their question lists are; loading a row keeps its target department, so
  this is the number of rows, parseable or not. A department all of whose feedbacks carry no
  question is therefore reported with a positive \<open>totalFeedbacks\<close>, with \<open>averageRating = 0\<close>
  and \<open>questionStats = []\<close>.
\<close>

theorem C10_total_feedbacks_counts_records:
  assumes "d \<in> set departments"
  shows "(\<exists>s. stats_of feedbacks d = Some s \<and>
             totalFeedbacks s = length (filter (\<lambda>f. targetDepartment f = d) feedbacks) \<and>
             ((\<exists>f \<in> set feedbacks. targetDepartment f = d) \<and>
              (\<forall>f \<in> set feedbacks. targetDepartment f = d \<longrightarrow> questions f = [])
              \<longrightarrow> totalFeedbacks s > 0 \<and> averageRating s = 0 \<and> questionStats s = []))
         \<and> length (filter (\<lambda>f. targetDepartment f = d) (load_feedbacks JSON_parse rows)) =
           length (filter (\<lambda>row. TARGET_DEPARTMENT row = d) rows)"
proof -
  have "all_questions (partition_of feedbacks d) = []"
    if "\<forall>f \<in> set feedbacks. targetDepartment f = d \<longrightarrow> questions f = []"
    using that by (auto simp: all_questions_def partition_of_def)
  moreover have "length (filter (\<lambda>f. targetDepartment f = d) feedbacks) > 0"
    if "\<exists>f \<in> set feedbacks. targetDepartment f = d"
    using that by (auto simp: filter_empty_conv)
  moreover have "length (filter (\<lambda>f. targetDepartment f = d) (load_feedbacks JSON_parse rows)) =
           length (filter (\<lambda>row. TARGET_DEPARTMENT row = d) rows)"
    by (simp add: load_feedbacks_def filter_map comp_def row_feedback_def)
  ultimately show ?thesis
    using assms
    by (auto simp: stats_of_entry department_entry_totalFeedbacks department_entry_averageRating
        department_entry_questionStats partition_of_def average_def grouped_question_stats_def)
qed

theorem C10_total_feedbacks_counts_records_witness:
  "\<exists>s. stats_of [F1, F3] ''Safety'' = Some s \<and> totalFeedbacks s = 1 \<and> averageRating s = 0 \<and>
        questionStats s = []"
proof -
  have d: "''Safety'' \<in> set departments"
    by (simp add: departments_def)
  have h: "(\<exists>f \<in> set [F1, F3]. targetDepartment f = ''Safety'') \<and>
           (\<forall>f \<in> set [F1, F3]. targetDepartment f = ''Safety'' \<longrightarrow> questions f = [])"
    by (simp add: F1_def F3_def)
  have n: "length (filter (\<lambda>f. targetDepartment f = ''Safety'') [F1, F3]) = 1"
    by (simp add: F1_def F3_def)
  from C10_total_feedbacks_counts_records
         [where d = "''Safety''" and feedbacks = "[F1, F3]" and JSON_parse = example_parse
            and rows = "[]", OF d]
  show ?thesis
    using h n by auto
qed

subsection \<open>AvailabilityFilter\<close>

text \<open>
  C3. For a signed-in user, any list of periods and any list of departments already answered,
  the component shows exactly the periods whose department is neither the user's own nor among
  the answered ones, in the order of the input; in particular no period of the user's own
  department is shown.
\<close>

theorem C3_availability_filter:
  assumes "id_u user \<noteq> []"
  shows "AvailabilityFilter periods submitted user =
           filter (\<lambda>p. department_p p \<noteq> department_u user \<and> department_p p \<notin> set submitted)
             periods
         \<and> (\<forall>p \<in> set (AvailabilityFilter periods submitted user).
               department_p p \<noteq> department_u user)
         \<and> fst (render (fetchAvailableFeedbacks (Some user)
                  (\<lambda>uid. Inr \<lparr>feedbackPeriods_d = periods, submittedDepartments_d = submitted\<rparr>)
                  st)) = Cards (AvailabilityFilter periods submitted user) submitted"
proof -
  note eq = AvailabilityFilter_eq [OF assms]
  have "fst (render (fetchAvailableFeedbacks (Some user)
                  (\<lambda>uid. Inr \<lparr>feedbackPeriods_d = periods, submittedDepartments_d = submitted\<rparr>)
                  st)) = Cards (AvailabilityFilter periods submitted user) submitted"
    using assms
    by (simp add: eq render_def fetchAvailableFeedbacks_def availablePeriods_def
        conj_commute)
  then show ?thesis by (simp add: eq)
qed

text \<open>The specification's example: with \<open>IT\<close> answered, a user of \<open>HR\<close> is left the third period.\<close>

theorem C3_availability_filter_witness:
  "AvailabilityFilter [period_IT, period_HR, period_Civil] [''IT''] asha = [period_Civil]"
  using C3_availability_filter [of asha "[period_IT, period_HR, period_Civil]" "[''IT'']"]
  by (simp add: asha_def period_IT_def period_HR_def period_Civil_def)


subsection \<open>Submissions\<close>

text \<open>
  C6, as amended. The rule of one feedback per user and target department is kept by the
  client's list only. After an accepted submission the server's answer lists the target
  department among the submitted ones and still contains every active period of that
  department; the list the client computes from the answer contains none of them. The backend
  checks no duplicate: the same request is accepted a second time (provided the identifiers the
  sequences generate next are unused, the one constraint that does not depend on the request),
  and two more feedbacks of that user about that department are stored than before the first.
  So more than one feedback per user and target department can be created.
\<close>

theorem C6_duplicates_only_hidden_by_client:
  assumes "post_api_feedbacks JSON_stringify now body db = (Inr fid, db')"
    and "ids_free db' (length (questions_b body))"
  shows "(\<exists>fid2 db2. post_api_feedbacks JSON_stringify now' body db' = (Inr fid2, db2) \<and>
            pair_count db2 (userId_b body) (targetDepartment_b body) =
              pair_count db (userId_b body) (targetDepartment_b body) + 2)
         \<and> (\<exists>data. fst (get_api_available_feedbacks JSON_parse_p now'' (userId_b body) db') = Inr data \<and>
              List.member (submittedDepartments_d data) (targetDepartment_b body) \<and>
              (\<forall>row \<in> set (feedback_periods_table db').
                 ACTIVE row = 1 \<and> END_DATE row > now'' \<and> DEPARTMENT row = targetDepartment_b body
                 \<longrightarrow> row_period JSON_parse_p row \<in> set (feedbackPeriods_d data)) \<and>
              (\<forall>p \<in> set (AvailabilityFilter (feedbackPeriods_d data) (submittedDepartments_d data) user).
                 department_p p \<noteq> targetDepartment_b body))"
proof -
  note d = post_accepted_D [OF assms(1)]
  from d(5) obtain row1 where row1: "feedbacks_table db' = feedbacks_table db @ [row1]"
    "USER_ID row1 = userId_b body" "TARGET_DEPARTMENT row1 = targetDepartment_b body"
    by blast
  have ok1: "body_ok db' body (JSON_stringify (questions_b body))"
    using d(1,3,4) by (simp add: body_ok_def)
  from post_accepted_I [where JSON_stringify = JSON_stringify and now = now', OF ok1 d(2) assms(2)]
  obtain db2 where second: "post_api_feedbacks JSON_stringify now' body db' =
      (Inr (feedback_id (feedback_seq db' + 1)), db2)"
    by blast
  from post_accepted_D(5) [OF second] obtain row2 where
    row2: "feedbacks_table db2 = feedbacks_table db' @ [row2]"
    "USER_ID row2 = userId_b body" "TARGET_DEPARTMENT row2 = targetDepartment_b body"
    by blast
  have count: "pair_count db2 (userId_b body) (targetDepartment_b body) =
              pair_count db (userId_b body) (targetDepartment_b body) + 2"
    using row1 row2 by (simp add: pair_count_def)
  have uid: "userId_b body \<noteq> []"
    using d(1) by (simp add: body_ok_def)
  let ?data = "\<lparr>feedbackPeriods_d = map (row_period JSON_parse_p) (select_active_periods now'' db'),
                submittedDepartments_d =
                  map TARGET_DEPARTMENT (select_submitted (userId_b body) db')\<rparr>"
  have resp: "fst (get_api_available_feedbacks JSON_parse_p now'' (userId_b body) db') = Inr ?data"
    using uid by (simp add: get_api_available_feedbacks_def)
  have sub: "targetDepartment_b body \<in> set (submittedDepartments_d ?data)"
    using row1 by (force simp: select_submitted_def)
  have offered: "\<forall>row \<in> set (feedback_periods_table db').
                 ACTIVE row = 1 \<and> END_DATE row > now'' \<and> DEPARTMENT row = targetDepartment_b body
                 \<longrightarrow> row_period JSON_parse_p row \<in> set (feedbackPeriods_d ?data)"
    by (auto simp: select_active_periods_def)
  have hidden: "\<forall>p \<in> set (AvailabilityFilter (feedbackPeriods_d ?data)
                           (submittedDepartments_d ?data) user).
          department_p p \<noteq> targetDepartment_b body"
  proof (cases "id_u user = []")
    case True
    then show ?thesis
      by (simp add: AvailabilityFilter_def fetchAvailableFeedbacks_def availablePeriods_def
          initial_state_def)
  next
    case False
    show ?thesis
      unfolding AvailabilityFilter_eq [OF False] using sub by auto
  qed
  from sub have mem: "List.member (submittedDepartments_d ?data) (targetDepartment_b body)"
    by simp
  from resp mem offered hidden count second show ?thesis by blast
qed

theorem C6_duplicates_only_hidden_by_client_witness:
  "(\<exists>fid2 db2. post_api_feedbacks example_stringify 101 (body_rating 4) db_periods_after_first =
        (Inr fid2, db2) \<and> pair_count db2 ''u1'' ''IT'' = 2)
   \<and> (\<exists>data. fst (get_api_available_feedbacks example_parse_p 102 ''u1'' db_periods_after_first) =
          Inr data \<and>
        map department_p (feedbackPeriods_d data) = [''IT'', ''Civil''] \<and>
        submittedDepartments_d data = [''IT''] \<and>
        map department_p
          (AvailabilityFilter (feedbackPeriods_d data) (submittedDepartments_d data) asha) =
          [''Civil''])"
proof -
  have free: "ids_free db_periods_after_first (length (questions_b (body_rating 4)))"
    by code_simp
  have c0: "pair_count db_periods ''u1'' ''IT'' = 0"
    by (simp add: pair_count_def db_periods_def)
  have b: "userId_b (body_rating 4) = ''u1''" "targetDepartment_b (body_rating 4) = ''IT''"
    by (simp_all add: body_rating_def)
  note t = C6_duplicates_only_hidden_by_client
         [where JSON_stringify = example_stringify and now' = 101 and JSON_parse_p = example_parse_p
            and now'' = 102 and user = asha, OF first_post_periods free, unfolded b c0]
  from t have server: "\<exists>fid2 db2.
      post_api_feedbacks example_stringify 101 (body_rating 4) db_periods_after_first =
        (Inr fid2, db2) \<and> pair_count db2 ''u1'' ''IT'' = 2"
    by (simp add: numeral_2_eq_2)
  let ?data = "\<lparr>feedbackPeriods_d =
             [\<lparr>id_p = ''FP00000001'', department_p = ''IT'', startDate = 0, endDate = 200,
               active = True, questions_p = [], createdAt_p = 0\<rparr>,
              \<lparr>id_p = ''FP00000002'', department_p = ''Civil'', startDate = 0, endDate = 300,
               active = True, questions_p = [], createdAt_p = 0\<rparr>],
           submittedDepartments_d = [''IT'']\<rparr>"
  have shown: "map department_p
          (AvailabilityFilter (feedbackPeriods_d ?data) (submittedDepartments_d ?data) asha) =
          [''Civil'']"
    by code_simp
  have client: "fst (get_api_available_feedbacks example_parse_p 102 ''u1'' db_periods_after_first) =
          Inr ?data \<and>
        map department_p (feedbackPeriods_d ?data) = [''IT'', ''Civil''] \<and>
        submittedDepartments_d ?data = [''IT''] \<and>
        map department_p
          (AvailabilityFilter (feedbackPeriods_d ?data) (submittedDepartments_d ?data) asha) =
          [''Civil'']"
    using shown by (simp add: available_after_first)
  show ?thesis
  proof (rule conjI)
    show "\<exists>fid2 db2.
      post_api_feedbacks example_stringify 101 (body_rating 4) db_periods_after_first =
        (Inr fid2, db2) \<and> pair_count db2 ''u1'' ''IT'' = 2"
      by (rule server)
    show "\<exists>data. fst (get_api_available_feedbacks example_parse_p 102 ''u1'' db_periods_after_first) =
          Inr data \<and>
        map department_p (feedbackPeriods_d data) = [''IT'', ''Civil''] \<and>
        submittedDepartments_d data = [''IT''] \<and>
        map department_p
          (AvailabilityFilter (feedbackPeriods_d data) (submittedDepartments_d data) asha) =
          [''Civil'']"
      by (rule exI [where x = ?data]) (rule client)
  qed
qed

text \<open>
  C6 as stated fails: while the period of the department is active, the same user's request is
  accepted twice, and two feedbacks of the user about the department are stored.
\<close>

theorem C6_counterexample:
  "post_api_feedbacks example_stringify 100 (body_rating 4) db_periods =
     (Inr ''FB00000001'', db_periods_after_first)
   \<and> map DEPARTMENT (select_active_periods 101 db_periods_after_first) = [''IT'', ''Civil'']
   \<and> post_api_feedbacks example_stringify 101 (body_rating 4) db_periods_after_first =
       (Inr ''FB00000002'', db_periods_after_second)
   \<and> pair_count db_periods_after_second ''u1'' ''IT'' = 2
   \<and> \<not> pair_count db_periods_after_second ''u1'' ''IT'' \<le> 1"
proof -
  have a: "map DEPARTMENT (select_active_periods 101 db_periods_after_first) = [''IT'', ''Civil'']"
    by code_simp
  have c: "pair_count db_periods_after_second ''u1'' ''IT'' = 2"
    by (simp add: pair_count_def db_periods_after_second_def stored_feedback_def)
  from first_post_periods a second_post_periods c show ?thesis
    by simp
qed

text \<open>
  C7, as amended. Every rating stored by an accepted submission is the rating received in the
  request body, in the table of questions as in the stored JSON text; the backend checks no
  range. When the body is the one the FeedbackForm builds from its radio inputs (values 1 to 5,
  read with \<^verbatim>\<open>parseInt\<close>), every stored rating is an integer from 1 to 5.
\<close>

theorem C7_ratings_stored_as_received:
  assumes "post_api_feedbacks JSON_stringify now body db = (Inr fid, db')"
  shows "\<exists>row new.
           feedbacks_table db' = feedbacks_table db @ [row] \<and>
           QUESTIONS row = Some (JSON_stringify (questions_b body)) \<and>
           feedback_questions_table db' = feedback_questions_table db @ new \<and>
           map RATING new = map rating_s (questions_b body) \<and>
           (onSubmit (Some user) (Some period) data = Posted body \<and>
            (\<forall>q \<in> set (questions_p period). \<forall>a. answers data (id_t q) = Some a \<longrightarrow>
               List.member radio_values (rating_f a))
            \<longrightarrow> (\<forall>r \<in> set (map RATING new). \<exists>n. r = Some n \<and> 1 \<le> n \<and> n \<le> 5))"
proof -
  note d = post_accepted_D [OF assms]
  from d(5) obtain row where row: "feedbacks_table db' = feedbacks_table db @ [row]"
    "QUESTIONS row = Some (JSON_stringify (questions_b body))"
    by blast
  from d(6) obtain new where new: "feedback_questions_table db' = feedback_questions_table db @ new"
    "map RATING new = map rating_s (questions_b body)"
    by blast
  have "\<forall>r \<in> set (map RATING new). \<exists>n. r = Some n \<and> 1 \<le> n \<and> n \<le> 5"
    if "onSubmit (Some user) (Some period) data = Posted body"
      and "\<forall>q \<in> set (questions_p period). \<forall>a. answers data (id_t q) = Some a \<longrightarrow>
               List.member radio_values (rating_f a)"
    using onSubmit_range [OF that] new(2) by auto
  with row new show ?thesis by blast
qed

theorem C7_ratings_stored_as_received_witness:
  "map RATING (feedback_questions_table db_after_first) = [Some 4]
   \<and> list_all (\<lambda>r. case r of None \<Rightarrow> False | Some n \<Rightarrow> 1 \<le> n \<and> n \<le> 5)
         (map RATING (feedback_questions_table db_after_first))"
proof -
  have s: "onSubmit (Some asha) (Some period_IT) (form_rating ''4'') = Posted (body_rating 4)"
    by code_simp
  have r: "\<forall>q \<in> set (questions_p period_IT). \<forall>a. answers (form_rating ''4'') (id_t q) = Some a \<longrightarrow>
             List.member radio_values (rating_f a)"
    by (auto simp: period_IT_def form_rating_def radio_values_eq)
  have e: "feedback_questions_table db0 = []"
    by (simp add: db0_def)
  from C7_ratings_stored_as_received
         [where JSON_stringify = example_stringify and user = asha and period = period_IT
            and data = "form_rating ''4''", OF first_post]
  obtain new where new: "feedback_questions_table db_after_first = feedback_questions_table db0 @ new"
    and imp: "onSubmit (Some asha) (Some period_IT) (form_rating ''4'') = Posted (body_rating 4) \<and>
            (\<forall>q \<in> set (questions_p period_IT). \<forall>a. answers (form_rating ''4'') (id_t q) = Some a \<longrightarrow>
               List.member radio_values (rating_f a))
            \<longrightarrow> (\<forall>r \<in> set (map RATING new). \<exists>n. r = Some n \<and> 1 \<le> n \<and> n \<le> 5)"
    by blast
  from new e have "new = feedback_questions_table db_after_first" by simp
  with imp s r have "\<forall>r \<in> set (map RATING (feedback_questions_table db_after_first)).
      \<exists>n. r = Some n \<and> 1 \<le> n \<and> n \<le> 5"
    by blast
  then show ?thesis by (auto simp: db_after_first_tables list_all_iff)
qed

text \<open>
  C7 as stated fails: a request whose rating is 7 is accepted and the 7 is stored.
\<close>

theorem C7_counterexample:
  "fst (post_api_feedbacks example_stringify 100 (body_rating 7) db0) = Inr ''FB00000001''
   \<and> map RATING (feedback_questions_table
                   (snd (post_api_feedbacks example_stringify 100 (body_rating 7) db0))) = [Some 7]
   \<and> QUESTIONS (last (feedbacks_table
                   (snd (post_api_feedbacks example_stringify 100 (body_rating 7) db0)))) = Some ''[q1:7;]''
   \<and> \<not> (7 \<le> (5::int))"
  by code_simp

subsection \<open>Both computations\<close>

text \<open>
  C9. On the store, a run of either computation writes only objects it has created itself.
  For every store and every feedbacks array in it, the aggregation returns; every object that
  was in the store before the run is unchanged after it, at the same address; and the array it
  returns holds the department statistics of the feedbacks. A second run on the store the first
  one left, from the same feedbacks array, returns an array of the same value. The same holds
  of the availability filter, from an array of periods and an array of submitted departments.
\<close>

theorem C9_runs_write_new_objects_only:
  assumes "feedbacks_at h fa = Some fs"
    and "periods_at k pa = Some ps" and "read_strings k sa = Some subs" and "id_u user \<noteq> []"
  shows "(\<exists>out h'. aggregate_h fa h = Some (out, h') \<and> take (length h) h' = h \<and>
            department_stats_at h' out = Some (departmentStats fs) \<and>
            (\<exists>out2 h2. aggregate_h fa h' = Some (out2, h2) \<and> take (length h') h2 = h' \<and>
               department_stats_at h2 out2 = Some (departmentStats fs)))
         \<and> (\<exists>out k'. availability_h pa sa (department_u user) k = Some (out, k') \<and>
               take (length k) k' = k \<and>
               periods_at k' out = Some (AvailabilityFilter ps subs user) \<and>
               (\<exists>out2 k2. availability_h pa sa (department_u user) k' = Some (out2, k2) \<and>
                  take (length k') k2 = k' \<and>
                  periods_at k2 out2 = Some (AvailabilityFilter ps subs user)))"
proof -
  from aggregate_h_refines [OF assms(1)]
  obtain out h' where a1: "aggregate_h fa h = Some (out, h')" and p1: "preserves h h'"
    and v1: "department_stats_at h' out = Some (departmentStats fs)"
    by blast
  from aggregate_h_refines [OF feedbacks_at_mono [OF p1 assms(1)]]
  obtain out2 h2 where a2: "aggregate_h fa h' = Some (out2, h2)" and p2: "preserves h' h2"
    and v2: "department_stats_at h2 out2 = Some (departmentStats fs)"
    by blast
  let ?own = "department_u user"
  have flt: "filter (\<lambda>p. \<not> List.member subs (department_p p))
               (filter (\<lambda>p. department_p p \<noteq> ?own) ps) = AvailabilityFilter ps subs user"
    using assms(4) by (simp add: AvailabilityFilter_eq conj_commute)
  from availability_h_refines [OF assms(2,3), of ?own]
  obtain o1 k' where b1: "availability_h pa sa ?own k = Some (o1, k')" and q1: "preserves k k'"
    and w1: "periods_at k' o1 = Some (AvailabilityFilter ps subs user)"
    unfolding flt by blast
  from availability_h_refines
         [OF periods_at_mono [OF q1 assms(2)] read_strings_mono [OF q1 assms(3)], of ?own]
  obtain o2 k2 where b2: "availability_h pa sa ?own k' = Some (o2, k2)" and q2: "preserves k' k2"
    and w2: "periods_at k2 o2 = Some (AvailabilityFilter ps subs user)"
    unfolding flt by blast
  from a1 p1 v1 a2 p2 v2 b1 q1 w1 b2 q2 w2 show ?thesis
    unfolding preserves_def by blast
qed

theorem C9_runs_write_new_objects_only_witness:
  "(\<exists>out h'. aggregate_h 7 heap_feedbacks = Some (out, h') \<and>
       take (length heap_feedbacks) h' = heap_feedbacks \<and>
       department_stats_at h' out = Some (departmentStats [F1, F2]) \<and>
       (\<exists>out2 h2. aggregate_h 7 h' = Some (out2, h2) \<and> take (length h') h2 = h' \<and>
          department_stats_at h2 out2 = Some (departmentStats [F1, F2])))
   \<and> (\<exists>out k'. availability_h 3 4 ''HR'' heap_periods = Some (out, k') \<and>
          take (length heap_periods) k' = heap_periods \<and>
          periods_at k' out = Some [period_Civil] \<and>
          (\<exists>out2 k2. availability_h 3 4 ''HR'' k' = Some (out2, k2) \<and> take (length k') k2 = k' \<and>
             periods_at k2 out2 = Some [period_Civil]))"
proof -
  have f: "feedbacks_at heap_feedbacks 7 = Some [F1, F2]"
    by code_simp
  have p: "periods_at heap_periods 3 = Some [period_IT, period_HR, period_Civil]"
    by code_simp
  have s: "read_strings heap_periods 4 = Some [''IT'']"
    by code_simp
  have u: "id_u asha \<noteq> []" "department_u asha = ''HR''"
    by (simp_all add: asha_def)
  have a: "AvailabilityFilter [period_IT, period_HR, period_Civil] [''IT''] asha = [period_Civil]"
    by code_simp
  from C9_runs_write_new_objects_only [OF f p s u(1)] show ?thesis
    unfolding u(2) a .
qed

end
